(* ===== verification/GoPrelude.thy ===== *)
theory GoPrelude
  imports Main "HOL-Library.State_Monad" "HOL-Library.Sublist"
begin

text \<open>
  The prelude of the development: the types every component shares (Go strings as byte
  strings, string maps with Go's zero value for a missing key, error values), the monad the
  stateful code is written in, and the lemma collections the component proofs use.

  Effects. A piece of code that calls the outside (kernel, S3 endpoint, Kubernetes API,
  systemd) runs in the state monad of HOL-Library over a type of worlds. The outside itself
  is never defined here: each call is a field of a record of parameters (theory World), a
  state transformer on an arbitrary type. A method that keeps an invariant is stated with
  \<open>keeps\<close>, whose rules (collection \<open>keeps_intros\<close>) follow the shape of the code.
\<close>

section \<open>Collections\<close>

named_theorems keeps_intros \<open>one rule per construct: a program built from it keeps an invariant\<close>
named_theorems path_simps \<open>evaluation of the path and string routines on well-shaped arguments\<close>
named_theorems reg_simps \<open>what a registry operation leaves at each key\<close>

section \<open>Types\<close>

type_synonym path = string
type_synonym smap = "string \<rightharpoonup> string"

text \<open>Reading a Go \<open>map[string]string\<close>: a missing key reads as the zero value.\<close>

definition mget :: "smap \<Rightarrow> string \<Rightarrow> string" where
  "mget m k = (case m k of None \<Rightarrow> '''' | Some v \<Rightarrow> v)"

lemma mget_upd [simp]: "mget (m(k \<mapsto> v)) k' = (if k' = k then v else mget m k')"
  by (simp add: mget_def)

lemma mget_empty [simp]: "mget Map.empty k = ''''"
  by (simp add: mget_def)

text \<open>
  Error values. \<open>Status c m\<close> is a gRPC status error; \<open>Errorf m\<close> is any other error with
  that text; \<open>Refused\<close> is the \<open>ListenRefused\<close> of pkg/s3, which callers recognise by type.
\<close>

datatype code = InvalidArgument | Internal | FailedPrecondition | NotFound | Unimplemented
  | Unavailable

datatype err = Status code string | Errorf string | Refused nat string

fun code_name :: "code \<Rightarrow> string" where
  "code_name InvalidArgument = ''InvalidArgument''"
| "code_name Internal = ''Internal''"
| "code_name FailedPrecondition = ''FailedPrecondition''"
| "code_name NotFound = ''NotFound''"
| "code_name Unimplemented = ''Unimplemented''"
| "code_name Unavailable = ''Unavailable''"

text \<open>The kernel's error numbers the code tells apart; every other one is \<open>EOTHER\<close>.\<close>

datatype errno = ENOENT | ENOTCONN | EIO | ECONNABORTED | EINVAL | EOTHER

section \<open>Programs over a world\<close>

text \<open>Running a program for its value, and for the world it leaves.\<close>

definition val_of :: "('w, 'a) state \<Rightarrow> 'w \<Rightarrow> 'a" where
  "val_of m w = fst (run_state m w)"

definition exec :: "('w, 'a) state \<Rightarrow> 'w \<Rightarrow> 'w" where
  "exec m w = snd (run_state m w)"

lemma val_of_bind [simp]: "val_of (State_Monad.bind m f) w = val_of (f (val_of m w)) (exec m w)"
  by (simp add: val_of_def exec_def split: prod.split)

lemma exec_bind [simp]: "exec (State_Monad.bind m f) w = exec (f (val_of m w)) (exec m w)"
  by (simp add: val_of_def exec_def split: prod.split)

lemma val_of_return [simp]: "val_of (State_Monad.return a) w = a"
  by (simp add: val_of_def)

lemma exec_return [simp]: "exec (State_Monad.return a) w = w"
  by (simp add: exec_def)

lemma val_of_get [simp]: "val_of State_Monad.get w = w"
  by (simp add: val_of_def)

lemma exec_get [simp]: "exec State_Monad.get w = w"
  by (simp add: exec_def)

lemma val_of_update [simp]: "val_of (State_Monad.update f) w = ()"
  by (simp add: val_of_def)

lemma exec_update [simp]: "exec (State_Monad.update f) w = f w"
  by (simp add: exec_def State_Monad.update_def)

lemma exec_set [simp]: "exec (State_Monad.set s) w = s"
  by (simp add: exec_def)

lemma val_of_State [simp]: "val_of (State f) w = fst (f w)"
  by (simp add: val_of_def)

lemma exec_State [simp]: "exec (State f) w = snd (f w)"
  by (simp add: exec_def)

lemma val_of_if [simp]: "val_of (if b then m else n) w = (if b then val_of m w else val_of n w)"
  by simp

lemma exec_if [simp]: "exec (if b then m else n) w = (if b then exec m w else exec n w)"
  by simp

text \<open>A loop over a list, for its effects.\<close>

primrec iter_m :: "('a \<Rightarrow> ('w, unit) state) \<Rightarrow> 'a list \<Rightarrow> ('w, unit) state" where
  "iter_m f [] = State_Monad.return ()"
| "iter_m f (x # xs) = do { f x; iter_m f xs }"

lemma exec_iter_Cons [simp]: "exec (iter_m f (x # xs)) w = exec (iter_m f xs) (exec (f x) w)"
  by simp

lemma exec_iter_append: "exec (iter_m f (xs @ ys)) w = exec (iter_m f ys) (exec (iter_m f xs) w)"
  by (induction xs arbitrary: w) simp_all

text \<open>A loop that collects what its body returns where it returns something.\<close>

primrec collect_m :: "('a \<Rightarrow> ('w, 'b option) state) \<Rightarrow> 'a list \<Rightarrow> ('w, 'b list) state" where
  "collect_m f [] = State_Monad.return []"
| "collect_m f (x # xs) = do {
     y \<leftarrow> f x;
     ys \<leftarrow> collect_m f xs;
     State_Monad.return (case y of None \<Rightarrow> ys | Some b \<Rightarrow> b # ys) }"

section \<open>Keeping an invariant\<close>

definition keeps :: "('w \<Rightarrow> bool) \<Rightarrow> ('w, 'a) state \<Rightarrow> bool" where
  "keeps I m = state_io_rel (\<lambda>w w'. I w \<longrightarrow> I w') m"

lemma keeps_iff: "keeps I m \<longleftrightarrow> (\<forall>w. I w \<longrightarrow> I (exec m w))"
  by (simp add: keeps_def state_io_rel_def exec_def)

lemma keepsI: "(\<And>w. I w \<Longrightarrow> I (exec m w)) \<Longrightarrow> keeps I m"
  by (simp add: keeps_iff)

lemma keepsD: "keeps I m \<Longrightarrow> I w \<Longrightarrow> I (exec m w)"
  by (simp add: keeps_iff)

lemma keeps_return [keeps_intros]: "keeps I (State_Monad.return a)"
  by (simp add: keeps_iff)

lemma keeps_get [keeps_intros]: "keeps I State_Monad.get"
  by (simp add: keeps_iff)

lemma keeps_bind [keeps_intros]:
  "keeps I m \<Longrightarrow> (\<And>a. keeps I (f a)) \<Longrightarrow> keeps I (State_Monad.bind m f)"
  by (simp add: keeps_iff)

lemma keeps_if [keeps_intros]:
  "(b \<Longrightarrow> keeps I m) \<Longrightarrow> (\<not> b \<Longrightarrow> keeps I n) \<Longrightarrow> keeps I (if b then m else n)"
  by simp

lemma keeps_case_option [keeps_intros]:
  "(x = None \<Longrightarrow> keeps I m) \<Longrightarrow> (\<And>a. x = Some a \<Longrightarrow> keeps I (f a)) \<Longrightarrow>
    keeps I (case x of None \<Rightarrow> m | Some a \<Rightarrow> f a)"
  by (cases x) simp_all

lemma keeps_case_sum [keeps_intros]:
  "(\<And>e. x = Inl e \<Longrightarrow> keeps I (f e)) \<Longrightarrow> (\<And>a. x = Inr a \<Longrightarrow> keeps I (g a)) \<Longrightarrow>
    keeps I (case x of Inl e \<Rightarrow> f e | Inr a \<Rightarrow> g a)"
  by (cases x) simp_all

lemma keeps_case_prod [keeps_intros]:
  "(\<And>a b. x = (a, b) \<Longrightarrow> keeps I (f a b)) \<Longrightarrow> keeps I (case x of (a, b) \<Rightarrow> f a b)"
  by (cases x) simp

lemma keeps_iter [keeps_intros]: "(\<And>x. keeps I (f x)) \<Longrightarrow> keeps I (iter_m f xs)"
  by (induction xs) (auto simp: keeps_iff)

lemma keeps_collect [keeps_intros]: "(\<And>x. keeps I (f x)) \<Longrightarrow> keeps I (collect_m f xs)"
  by (induction xs) (auto simp: keeps_iff)

end
