(* ===== verification/Csi.thy ===== *)
theory Csi
  imports GoPrelude
begin

text \<open>
  The CSI messages the driver reads and writes (the fields it uses). The generated getters are
  safe on nil: a nil capability or access mode reads as the zero value, which is \<open>UNKNOWN\<close>.
  A repeated field is \<open>None\<close> where it is nil, which is what the handlers test.
\<close>

datatype access_mode = UNKNOWN | SINGLE_NODE_WRITER | SINGLE_NODE_READER_ONLY
  | MULTI_NODE_READER_ONLY | MULTI_NODE_SINGLE_WRITER | MULTI_NODE_MULTI_WRITER
  | SINGLE_NODE_SINGLE_WRITER | SINGLE_NODE_MULTI_WRITER

record VolumeCapability =
  AccessMode :: "access_mode option"
  MountFlags :: "string list"

text \<open>The getter chain \<open>c.GetAccessMode().GetMode()\<close>, \<open>c\<close> possibly nil.\<close>

definition getMode :: "VolumeCapability option \<Rightarrow> access_mode" where
  "getMode c = (case c of None \<Rightarrow> UNKNOWN
     | Some vc \<Rightarrow> (case AccessMode vc of None \<Rightarrow> UNKNOWN | Some m \<Rightarrow> m))"

record CreateVolumeRequest =
  cvName :: string
  cvRequiredBytes :: int
  cvCapabilities :: "VolumeCapability option list option"
  cvParameters :: smap
  cvSecrets :: smap

record Volume =
  VolumeId :: string
  VolCapacityBytes :: int
  VolumeContext :: smap

record DeleteVolumeRequest =
  dvVolumeId :: string
  dvSecrets :: smap

record ValidateRequest =
  vvVolumeId :: string
  vvCapabilities :: "VolumeCapability option list option"
  vvSecrets :: smap

text \<open>The answer is either confirmed capabilities or a message why not.\<close>

datatype ValidateResponse = Confirmed "VolumeCapability list" | NotConfirmed string

record NodeStageRequest =
  nsVolumeId :: string
  nsStagingTargetPath :: path
  nsCapability :: "VolumeCapability option"
  nsVolumeContext :: smap
  nsSecrets :: smap

record NodePublishRequest =
  npVolumeId :: string
  npTargetPath :: path
  npStagingTargetPath :: path
  npCapability :: "VolumeCapability option"
  npVolumeContext :: smap
  npSecrets :: smap

datatype capability_service = CREATE_DELETE_VOLUME | STAGE_UNSTAGE_VOLUME | CONTROLLER_SERVICE

end
