(* ===== verification/GoStrings.thy ===== *)
theory GoStrings
  imports GoPrelude
begin

text \<open>
  The parts of Go's \<open>strings\<close>, \<open>strconv\<close>, \<open>path\<close> and \<open>path/filepath\<close> the driver uses, on
  byte strings. \<open>strings.Contains\<close> and \<open>strings.HasPrefix\<close>/\<open>HasSuffix\<close> are \<open>sublist\<close>,
  \<open>prefix\<close> and \<open>suffix\<close> of HOL-Library. Nothing here is a function of the repository, so
  nothing here is in the map; the lemmas are what the components use of the routines.
\<close>

section \<open>Splitting and joining\<close>

fun join :: "string \<Rightarrow> string list \<Rightarrow> string" where
  "join sep [] = []"
| "join sep [x] = x"
| "join sep (x # y # xs) = x @ sep @ join sep (y # xs)"

text \<open>\<open>strings.Split\<close> at a one-byte separator.\<close>

fun split_on :: "char \<Rightarrow> string \<Rightarrow> string list" where
  "split_on c [] = [[]]"
| "split_on c (x # xs) =
     (if x = c then [] # split_on c xs
      else case split_on c xs of [] \<Rightarrow> [[x]] | w # ws \<Rightarrow> (x # w) # ws)"

text \<open>\<open>strings.SplitN(s, c, 2)\<close>: what is before the first separator, and what is after it.\<close>

fun cut :: "char \<Rightarrow> string \<Rightarrow> string \<times> string option" where
  "cut c [] = ([], None)"
| "cut c (x # xs) = (if x = c then ([], Some xs) else (case cut c xs of (a, b) \<Rightarrow> (x # a, b)))"

lemma split_on_not_Nil [simp]: "split_on c s \<noteq> []"
  by (induction s) (auto split: list.splits)

lemma split_on_no_sep: "c \<notin> set s \<Longrightarrow> split_on c s = [s]"
  by (induction s) auto

lemma split_on_append_sep:
  "c \<notin> set w \<Longrightarrow> split_on c (w @ c # s) = w # split_on c s"
  by (induction w) auto

lemma split_on_join [path_simps]:
  "ws \<noteq> [] \<Longrightarrow> (\<And>w. w \<in> set ws \<Longrightarrow> c \<notin> set w) \<Longrightarrow> split_on c (join [c] ws) = ws"
  by (induction "[c]" ws rule: join.induct) (auto simp: split_on_append_sep split_on_no_sep)

lemma split_on_free: "w \<in> set (split_on c s) \<Longrightarrow> c \<notin> set w"
  by (induction s arbitrary: w) (auto split: list.splits if_splits)

lemma join_split_on: "join [c] (split_on c s) = s"
proof (induction s)
  case (Cons x s)
  obtain w ws where ww: "split_on c s = w # ws" by (cases "split_on c s") auto
  have "join [c] ((y # w) # ws) = y # join [c] (w # ws)" for y by (cases ws) simp_all
  with Cons ww show ?case by (auto simp: neq_Nil_conv)
qed simp

lemma cut_no_sep [path_simps]: "c \<notin> set s \<Longrightarrow> cut c s = (s, None)"
  by (induction s) auto

lemma cut_append_sep [path_simps]: "c \<notin> set w \<Longrightarrow> cut c (w @ c # s) = (w, Some s)"
  by (induction w) auto

lemma cut_fst_free: "c \<notin> set (fst (cut c s))"
  by (induction s) (auto split: prod.splits)

lemma cut_Some: "cut c s = (a, Some b) \<Longrightarrow> s = a @ c # b"
  by (induction s arbitrary: a b) (auto split: prod.splits if_splits)

lemma cut_None: "cut c s = (a, None) \<Longrightarrow> s = a \<and> c \<notin> set s"
  by (induction s arbitrary: a) (auto split: prod.splits if_splits)

section \<open>Trimming\<close>

definition trim_char :: "char \<Rightarrow> string \<Rightarrow> string" where
  "trim_char c s = rev (dropWhile (\<lambda>x. x = c) (rev (dropWhile (\<lambda>x. x = c) s)))"

abbreviation slash :: char where "slash \<equiv> CHR ''/''"

abbreviation trim_slashes :: "string \<Rightarrow> string" where "trim_slashes \<equiv> trim_char slash"

lemma trim_char_Nil [simp]: "trim_char c [] = []"
  by (simp add: trim_char_def)

lemma hd_dropWhile_neq: "dropWhile (\<lambda>x. x = c) s \<noteq> [] \<Longrightarrow> hd (dropWhile (\<lambda>x. x = c) s) \<noteq> c"
  by (induction s) auto

lemma trim_char_id: "s = [] \<or> hd s \<noteq> c \<and> last s \<noteq> c \<Longrightarrow> trim_char c s = s"
proof (cases "s = []")
  case False
  assume "s = [] \<or> hd s \<noteq> c \<and> last s \<noteq> c"
  with False have ends: "hd s \<noteq> c" "hd (rev s) \<noteq> c" "rev s \<noteq> []" by (auto simp: hd_rev)
  then have "dropWhile (\<lambda>x. x = c) s = s" "dropWhile (\<lambda>x. x = c) (rev s) = rev s"
    using False by (simp_all add: dropWhile_eq_self_iff)
  then show ?thesis by (simp add: trim_char_def)
qed simp

lemma last_trim_char: "trim_char c s \<noteq> [] \<Longrightarrow> last (trim_char c s) \<noteq> c"
  by (simp add: trim_char_def last_rev hd_dropWhile_neq)

lemma hd_trim_char: "trim_char c s \<noteq> [] \<Longrightarrow> hd (trim_char c s) \<noteq> c"
proof -
  assume ne: "trim_char c s \<noteq> []"
  let ?d = "dropWhile (\<lambda>x. x = c) s"
  have "suffix (dropWhile (\<lambda>x. x = c) (rev ?d)) (rev ?d)" by (rule suffix_dropWhile)
  then have "prefix (trim_char c s) ?d" by (simp add: trim_char_def suffix_to_prefix)
  with ne obtain zs where "?d = trim_char c s @ zs" by (auto simp: prefix_def)
  with ne have "hd (trim_char c s) = hd ?d" and "?d \<noteq> []" by simp_all
  then show ?thesis using hd_dropWhile_neq[of c s] by simp
qed

lemma trim_snoc: "trim_char c (s @ [c]) = trim_char c s"
  by (induction s) (simp_all add: trim_char_def)

lemma set_trim_char: "set (trim_char c s) \<subseteq> set s"
proof -
  have "set (dropWhile P t) \<subseteq> set t" for P and t :: string by (auto dest: set_dropWhileD)
  then show ?thesis unfolding trim_char_def by (metis set_rev subset_trans)
qed

section \<open>Fields\<close>

text \<open>
  \<open>strings.Fields\<close> splits at \<open>unicode.IsSpace\<close>. \<open>space_len s\<close> is the number of bytes of the
  white-space rune at the head of \<open>s\<close>, 0 if there is none. Every multi-byte space starts
  with a lead byte, which no other rune contains, so scanning the bytes finds exactly the
  runes Go decodes, in invalid UTF-8 too.
\<close>

definition ascii_space :: "char \<Rightarrow> bool" where
  "ascii_space c \<longleftrightarrow> c = CHR 0x20 \<or> c = CHR 0x09 \<or> c = CHR 0x0A \<or> c = CHR 0x0B \<or> c = CHR 0x0C
     \<or> c = CHR 0x0D"

definition space3 :: "char \<Rightarrow> char \<Rightarrow> char \<Rightarrow> bool" where
  "space3 a b c \<longleftrightarrow>
     a = CHR 0xE1 \<and> b = CHR 0x9A \<and> c = CHR 0x80 \<or>
     a = CHR 0xE2 \<and> b = CHR 0x80 \<and>
       (128 \<le> (of_char c :: nat) \<and> (of_char c :: nat) \<le> 138 \<or> c = CHR 0xA8 \<or> c = CHR 0xA9 \<or> c = CHR 0xAF) \<or>
     a = CHR 0xE2 \<and> b = CHR 0x81 \<and> c = CHR 0x9F \<or>
     a = CHR 0xE3 \<and> b = CHR 0x80 \<and> c = CHR 0x80"

fun space_len :: "string \<Rightarrow> nat" where
  "space_len [] = 0"
| "space_len (a # s) =
     (if ascii_space a then 1
      else (case s of [] \<Rightarrow> 0 | b # s' \<Rightarrow>
        if a = CHR 0xC2 \<and> (b = CHR 0x85 \<or> b = CHR 0xA0) then 2
        else (case s' of [] \<Rightarrow> 0 | c # _ \<Rightarrow> if space3 a b c then 3 else 0)))"

fun take_field :: "string \<Rightarrow> string \<times> string" where
  "take_field [] = ([], [])"
| "take_field (c # cs) =
     (if space_len (c # cs) > 0 then ([], c # cs)
      else case take_field cs of (w, r) \<Rightarrow> (c # w, r))"

lemma take_field_length: "take_field s = (w, r) \<Longrightarrow> length w + length r = length s"
  by (induction s arbitrary: w r) (auto split: if_splits prod.splits)

lemma take_field_shorter:
  "s \<noteq> [] \<Longrightarrow> space_len s = 0 \<Longrightarrow> (w, r) = take_field s \<Longrightarrow> length r < length s"
proof -
  assume a: "s \<noteq> []" "space_len s = 0" and t: "(w, r) = take_field s"
  then have "w \<noteq> []" by (cases s) (auto split: prod.splits if_splits simp: t[symmetric])
  with take_field_length[OF t[symmetric]] show ?thesis by (cases w) auto
qed

function Fields :: "string \<Rightarrow> string list" where
  "Fields s =
     (if s = [] then []
      else if space_len s > 0 then Fields (drop (space_len s) s)
      else case take_field s of (w, r) \<Rightarrow> w # Fields r)"
  by pat_completeness auto
termination
  by (relation "measure length") (simp_all add: take_field_shorter del: space_len.simps take_field.simps)

declare Fields.simps [simp del]

text \<open>\<open>strings.TrimSpace\<close>: \<open>rspace_len\<close> is \<open>space_len\<close> at the end of a string, read backwards.\<close>

fun rspace_len :: "string \<Rightarrow> nat" where
  "rspace_len [] = 0"
| "rspace_len (c # s) =
     (if ascii_space c then 1
      else (case s of [] \<Rightarrow> 0 | b # s' \<Rightarrow>
        if b = CHR 0xC2 \<and> (c = CHR 0x85 \<or> c = CHR 0xA0) then 2
        else (case s' of [] \<Rightarrow> 0 | a # _ \<Rightarrow> if space3 a b c then 3 else 0)))"

function drop_spaces :: "(string \<Rightarrow> nat) \<Rightarrow> string \<Rightarrow> string" where
  "drop_spaces f s = (if s = [] \<or> f s = 0 then s else drop_spaces f (drop (f s) s))"
  by pat_completeness auto
termination by (relation "measure (\<lambda>(f, s). length s)") auto

declare drop_spaces.simps [simp del]

definition trim_space :: "string \<Rightarrow> string" where
  "trim_space s = rev (drop_spaces rspace_len (rev (drop_spaces space_len s)))"

section \<open>Numbers\<close>

definition digit_char :: "nat \<Rightarrow> char" where
  "digit_char n = (if n < 10 then char_of (48 + n) else char_of (87 + n))"

definition digit_val :: "char \<Rightarrow> nat option" where
  "digit_val c = (let n = of_char c in if 48 \<le> n \<and> n \<le> 57 then Some (n - 48) else None)"

lemma digit_val_char: "n < 10 \<Longrightarrow> digit_val (digit_char n) = Some n"
  by (simp add: digit_val_def digit_char_def)

fun show_nat :: "nat \<Rightarrow> string" where
  "show_nat n = (if n < 10 then [digit_char n] else show_nat (n div 10) @ [digit_char (n mod 10)])"

declare show_nat.simps [simp del]

definition show_int :: "int \<Rightarrow> string" where
  "show_int i = (if i < 0 then CHR ''-'' # show_nat (nat (- i)) else show_nat (nat i))"

text \<open>
  \<open>strconv.ParseUint\<close> for an explicit base: digits one by one; a byte that is no digit of the
  base is a syntax error, a value past the maximum a range error, whichever comes first.
\<close>

datatype num = NumOk nat | NumSyntax | NumRange

fun parse_digits :: "nat \<Rightarrow> nat \<Rightarrow> nat \<Rightarrow> string \<Rightarrow> num" where
  "parse_digits b mx n [] = NumOk n"
| "parse_digits b mx n (c # cs) =
     (case digit_val c of
        None \<Rightarrow> NumSyntax
      | Some d \<Rightarrow> if d \<ge> b then NumSyntax
                 else if n * b + d > mx then NumRange
                 else parse_digits b mx (n * b + d) cs)"

definition parse_uint :: "nat \<Rightarrow> nat \<Rightarrow> string \<Rightarrow> num" where
  "parse_uint b mx s = (if s = [] then NumSyntax else parse_digits b mx 0 s)"

definition max_int64 :: int where "max_int64 = 9223372036854775807"
definition min_int64 :: int where "min_int64 = - 9223372036854775808"

text \<open>
  \<open>strconv.ParseInt(s, 10, 64)\<close>: the value, and whether it came with an error. A syntax error
  gives 0; a value out of range gives the bound it passed.
\<close>

definition parse_int64 :: "string \<Rightarrow> int \<times> bool" where
  "parse_int64 s =
     (let neg = (s \<noteq> [] \<and> hd s = CHR ''-'');
          body = (if s \<noteq> [] \<and> (hd s = CHR ''-'' \<or> hd s = CHR ''+'') then tl s else s)
      in case parse_uint 10 18446744073709551615 body of
           NumSyntax \<Rightarrow> (0, True)
         | NumRange \<Rightarrow> (if neg then min_int64 else max_int64, True)
         | NumOk n \<Rightarrow>
             if neg then (if int n > 9223372036854775808 then (min_int64, True) else (- int n, False))
             else (if int n > max_int64 then (max_int64, True) else (int n, False)))"

text \<open>\<open>strconv.Atoi\<close>: the value, if there is no error.\<close>

definition atoi :: "string \<Rightarrow> int option" where
  "atoi s = (case parse_int64 s of (n, e) \<Rightarrow> if e then None else Some n)"

lemma parse_digits_snoc:
  "parse_digits b mx n (xs @ ys) =
     (case parse_digits b mx n xs of NumOk m \<Rightarrow> parse_digits b mx m ys | r \<Rightarrow> r)"
  by (induction xs arbitrary: n) (auto split: option.splits)

lemma show_nat_ne [simp]: "show_nat n \<noteq> []"
  by (subst show_nat.simps) simp

lemma parse_show_nat: "n \<le> mx \<Longrightarrow> parse_digits 10 mx 0 (show_nat n) = NumOk n"
proof (induction n rule: show_nat.induct)
  case (1 n)
  show ?case
  proof (cases "n < 10")
    case True
    with "1.prems" show ?thesis by (subst show_nat.simps) (simp add: digit_val_char)
  next
    case False
    have "parse_digits 10 mx 0 (show_nat (n div 10)) = NumOk (n div 10)"
      using False "1.prems" by (intro "1.IH") auto
    with False "1.prems" show ?thesis
      by (subst show_nat.simps) (simp add: parse_digits_snoc digit_val_char)
  qed
qed

lemma hd_show_nat: "hd (show_nat n) \<noteq> CHR ''-'' \<and> hd (show_nat n) \<noteq> CHR ''+''"
proof (induction n rule: show_nat.induct)
  case (1 n)
  have d: "digit_char k \<noteq> CHR ''-'' \<and> digit_char k \<noteq> CHR ''+''" if "k < 10" for k
  proof -
    have "digit_val (digit_char k) \<noteq> None" using that by (simp add: digit_val_char)
    moreover have "digit_val (CHR ''-'') = None" "digit_val (CHR ''+'') = None"
      by (simp_all add: digit_val_def)
    ultimately show ?thesis by metis
  qed
  show ?case
  proof (cases "n < 10")
    case True
    then show ?thesis by (subst show_nat.simps, subst (2) show_nat.simps) (simp add: d)
  next
    case False
    with 1 have "hd (show_nat (n div 10)) \<noteq> CHR ''-'' \<and> hd (show_nat (n div 10)) \<noteq> CHR ''+''" by simp
    with False show ?thesis by (subst show_nat.simps, subst (2) show_nat.simps) simp
  qed
qed

text \<open>Printing an \<open>int64\<close> and parsing it again gives it back.\<close>

lemma parse_show_int64:
  "min_int64 \<le> i \<Longrightarrow> i \<le> max_int64 \<Longrightarrow> parse_int64 (show_int i) = (i, False)"
  using hd_show_nat[of "nat i"]
  by (auto simp: parse_int64_def show_int_def parse_uint_def parse_show_nat min_int64_def
      max_int64_def Let_def)

definition parse_bool :: "string \<Rightarrow> bool" where
  "parse_bool s \<longleftrightarrow> s \<in> {''1'', ''t'', ''T'', ''TRUE'', ''true'', ''True''}"

section \<open>Letters and bytes\<close>

definition is_ascii :: "string \<Rightarrow> bool" where
  "is_ascii s \<longleftrightarrow> (\<forall>c \<in> set s. (of_char c :: nat) < 128)"

definition ascii_lower :: "char \<Rightarrow> char" where
  "ascii_lower c = (let n = of_char c :: nat in if 65 \<le> n \<and> n \<le> 90 then char_of (n + 32) else c)"

text \<open>
  \<open>strings.ToLower\<close>: byte by byte on ASCII; any other string goes through the Unicode case
  tables, which are the argument \<open>uni\<close>.
\<close>

definition to_lower :: "(string \<Rightarrow> string) \<Rightarrow> string \<Rightarrow> string" where
  "to_lower uni s = (if is_ascii s then map ascii_lower s else uni s)"

section \<open>Words without white space\<close>

text \<open>A word \<open>strings.Fields\<close> does not split: no white-space rune starts anywhere in it.\<close>

fun unspaced :: "string \<Rightarrow> bool" where
  "unspaced [] = True"
| "unspaced (c # s) = (space_len (c # s) = 0 \<and> unspaced s)"

definition word_ok :: "string \<Rightarrow> bool" where
  "word_ok w \<longleftrightarrow> w \<noteq> [] \<and> unspaced w"

lemma space_len_before_blank: "w \<noteq> [] \<Longrightarrow> space_len (w @ CHR 0x20 # s) = space_len w"
  by (cases w rule: space_len.cases) (auto simp: space3_def split: list.splits)

lemma take_field_word: "unspaced w \<Longrightarrow> take_field w = (w, [])"
  by (induction w) (simp_all del: space_len.simps)

lemma take_field_word_blank: "unspaced w \<Longrightarrow> take_field (w @ CHR 0x20 # s) = (w, CHR 0x20 # s)"
proof (induction w)
  case (Cons c w)
  then show ?case using space_len_before_blank[of "c # w" s] by (simp del: space_len.simps)
qed (simp add: ascii_space_def)

lemma Fields_blank: "Fields (CHR 0x20 # s) = Fields s"
  by (subst Fields.simps) (simp add: ascii_space_def)

lemma Fields_Nil [simp]: "Fields [] = []"
  by (simp add: Fields.simps)

lemma unspaced_head: "unspaced w \<Longrightarrow> space_len w = 0"
  by (cases w) simp_all

lemma Fields_word: "word_ok w \<Longrightarrow> Fields w = [w]"
  by (subst Fields.simps) (simp add: word_ok_def take_field_word unspaced_head del: space_len.simps)

lemma Fields_word_blank: "word_ok w \<Longrightarrow> Fields (w @ CHR 0x20 # s) = w # Fields s"
  by (subst Fields.simps)
    (simp add: word_ok_def take_field_word_blank space_len_before_blank unspaced_head Fields_blank
      del: space_len.simps)

text \<open>Words joined by blanks are read back one by one.\<close>

lemma Fields_join: "(\<And>w. w \<in> set ws \<Longrightarrow> word_ok w) \<Longrightarrow> Fields (join '' '' ws) = ws"
  by (induction "'' ''" ws rule: join.induct) (auto simp: Fields_word Fields_word_blank)

end
