(* ===== verification/GoPaths.thy ===== *)
theory GoPaths
  imports GoStrings
begin

text \<open>
  Go's lexical paths: \<open>path.Clean\<close>, \<open>path.Join\<close> and \<open>path.Dir\<close> (on this platform
  \<open>path/filepath\<close> computes the same), and what they give on paths whose components are
  plain names.
\<close>

section \<open>Clean, Join, Dir\<close>

text \<open>
  \<open>clean_comps r st cs\<close> processes the components \<open>cs\<close> with the kept ones (last first) in
  \<open>st\<close>; \<open>r\<close> says whether the path is rooted.
\<close>

fun clean_comps :: "bool \<Rightarrow> string list \<Rightarrow> string list \<Rightarrow> string list" where
  "clean_comps r st [] = rev st"
| "clean_comps r st (c # cs) =
     (if c = '''' \<or> c = ''.'' then clean_comps r st cs
      else if c = ''..'' then
        (case st of
           [] \<Rightarrow> clean_comps r (if r then [] else [''..'']) cs
         | d # st' \<Rightarrow> if d = ''..'' then clean_comps r (''..'' # st) cs else clean_comps r st' cs)
      else clean_comps r (c # st) cs)"

definition rooted :: "path \<Rightarrow> bool" where
  "rooted p \<longleftrightarrow> p \<noteq> [] \<and> hd p = slash"

definition path_clean :: "path \<Rightarrow> path" where
  "path_clean p =
     (let body = join [slash] (clean_comps (rooted p) [] (split_on slash p))
      in if rooted p then slash # body else if body = '''' then ''.'' else body)"

definition path_join :: "string list \<Rightarrow> path" where
  "path_join es =
     (case dropWhile (\<lambda>e. e = '''') es of [] \<Rightarrow> '''' | fs \<Rightarrow> path_clean (join [slash] fs))"

definition path_dir :: "path \<Rightarrow> path" where
  "path_dir p = path_clean (rev (dropWhile (\<lambda>c. c \<noteq> slash) (rev p)))"

section \<open>Plain names\<close>

definition plain :: "string \<Rightarrow> bool" where
  "plain c \<longleftrightarrow> c \<noteq> '''' \<and> c \<noteq> ''.'' \<and> c \<noteq> ''..'' \<and> slash \<notin> set c"

lemma plain_simps:
  "plain c \<Longrightarrow> c \<noteq> ''''" "plain c \<Longrightarrow> c \<noteq> ''.''" "plain c \<Longrightarrow> c \<noteq> ''..''"
  "plain c \<Longrightarrow> slash \<notin> set c"
  by (simp_all add: plain_def)

lemma clean_comps_plain [path_simps]:
  "(\<And>c. c \<in> set cs \<Longrightarrow> plain c) \<Longrightarrow> clean_comps r st cs = rev st @ cs"
  by (induction cs arbitrary: st) (auto simp: plain_def)

lemma join_Cons_ne [path_simps]: "xs \<noteq> [] \<Longrightarrow> join sep (x # xs) = x @ sep @ join sep xs"
  by (cases xs) simp_all

lemma join_append: "xs \<noteq> [] \<Longrightarrow> ys \<noteq> [] \<Longrightarrow> join sep (xs @ ys) = join sep xs @ sep @ join sep ys"
proof (induction xs)
  case (Cons x xs)
  then show ?case by (cases "xs = []") (simp_all add: join_Cons_ne)
qed simp

lemma join_plain_ne: "cs \<noteq> [] \<Longrightarrow> (\<And>c. c \<in> set cs \<Longrightarrow> plain c) \<Longrightarrow> join [slash] cs \<noteq> []"
  by (cases cs; cases "tl cs") (auto simp: plain_def)

lemma hd_join: "cs \<noteq> [] \<Longrightarrow> hd cs \<noteq> [] \<Longrightarrow> hd (join sep cs) = hd (hd cs)"
  by (cases cs; cases "tl cs") (auto simp: join_Cons_ne)

lemma join_plain_not_rooted [path_simps]:
  "(\<And>c. c \<in> set cs \<Longrightarrow> plain c) \<Longrightarrow> \<not> rooted (join [slash] cs)"
proof (cases "cs = []")
  case False
  assume p: "\<And>c. c \<in> set cs \<Longrightarrow> plain c"
  with False have "plain (hd cs)" by simp
  then have "hd cs \<noteq> []" "hd (hd cs) \<noteq> slash" by (auto simp: plain_def dest: hd_in_set)
  with False show ?thesis by (simp add: rooted_def hd_join)
qed (simp add: rooted_def)

lemma path_clean_plain [path_simps]:
  "cs \<noteq> [] \<Longrightarrow> (\<And>c. c \<in> set cs \<Longrightarrow> plain c) \<Longrightarrow> path_clean (join [slash] cs) = join [slash] cs"
  using join_plain_not_rooted[of cs] join_plain_ne[of cs]
  by (simp add: path_clean_def split_on_join clean_comps_plain plain_simps(4))

lemma split_rooted: "split_on slash (slash # s) = '''' # split_on slash s"
  by simp

lemma path_clean_rooted_plain [path_simps]:
  "(\<And>c. c \<in> set cs \<Longrightarrow> plain c) \<Longrightarrow> path_clean (slash # join [slash] cs) = slash # join [slash] cs"
  by (cases "cs = []")
    (simp_all add: path_clean_def rooted_def split_on_join clean_comps_plain plain_simps(4))

text \<open>Joining a name to a name, and a relative path to an absolute one.\<close>

lemma path_join_plain2 [path_simps]:
  "plain a \<Longrightarrow> plain b \<Longrightarrow> path_join [a, b] = a @ [slash] @ b"
  using path_clean_plain[of "[a, b]"] by (auto simp: path_join_def plain_def)

lemma path_join_abs:
  assumes "\<And>c. c \<in> set cs \<Longrightarrow> plain c" "\<And>d. d \<in> set ds \<Longrightarrow> plain d" "ds \<noteq> []"
  shows "path_join [slash # join [slash] cs, join [slash] ds] = slash # join [slash] (cs @ ds)"
proof (cases "cs = []")
  case True
  have "path_clean (slash # slash # join [slash] ds) = slash # join [slash] ds"
    using assms by (simp add: path_clean_def rooted_def split_on_join clean_comps_plain plain_simps(4))
  with True show ?thesis by (simp add: path_join_def)
next
  case False
  have "path_clean (slash # join [slash] (cs @ ds)) = slash # join [slash] (cs @ ds)"
    using assms by (intro path_clean_rooted_plain) auto
  with False assms(3) show ?thesis by (simp add: path_join_def join_append)
qed

lemma path_dir_no_slash: "slash \<notin> set f \<Longrightarrow> path_dir f = ''.''"
proof -
  assume "slash \<notin> set f"
  then have d: "dropWhile (\<lambda>c. c \<noteq> slash) (rev f) = []" by (auto simp: dropWhile_eq_Nil_conv)
  show ?thesis unfolding path_dir_def d by (simp add: path_clean_def rooted_def)
qed

lemma path_dir_append: "slash \<notin> set f \<Longrightarrow> path_dir (p @ slash # f) = path_clean (p @ [slash])"
proof -
  assume "slash \<notin> set f"
  then have "dropWhile (\<lambda>c. c \<noteq> slash) (rev f @ slash # rev p) = slash # rev p"
    by (subst dropWhile_append2) auto
  then show ?thesis by (simp add: path_dir_def)
qed

lemma split_on_snoc_sep: "split_on c (s @ [c]) = split_on c s @ [[]]"
  by (induction s) (auto split: list.splits)

lemma clean_comps_snoc_empty [simp]: "clean_comps r st (cs @ [[]]) = clean_comps r st cs"
  by (induction r st cs rule: clean_comps.induct) (auto split: list.splits)

lemma path_clean_trailing: "p \<noteq> [] \<Longrightarrow> path_clean (p @ [slash]) = path_clean p"
  by (simp add: path_clean_def rooted_def split_on_snoc_sep)

text \<open>The directory of a path of plain names: all of them but the last.\<close>

lemma path_dir_plain [path_simps]:
  assumes "\<And>c. c \<in> set ds \<Longrightarrow> plain c" "slash \<notin> set f"
  shows "path_dir (join [slash] (ds @ [f])) = (if ds = [] then ''.'' else join [slash] ds)"
proof (cases "ds = []")
  case True
  with assms show ?thesis by (simp add: path_dir_no_slash)
next
  case False
  then show ?thesis using assms
    by (simp add: join_append path_dir_append path_clean_trailing path_clean_plain join_plain_ne)
qed

section \<open>Lengths: climbing from a relative directory ends\<close>

definition tot :: "string list \<Rightarrow> nat" where
  "tot ws = (\<Sum>w \<leftarrow> ws. Suc (length w))"

lemma tot_simps [simp]: "tot [] = 0" "tot (w # ws) = Suc (length w) + tot ws"
  "tot (xs @ ys) = tot xs + tot ys" "tot (rev xs) = tot xs"
  by (simp_all add: tot_def rev_map[symmetric] sum_list_rev)

lemma tot_split_on: "tot (split_on c s) = Suc (length s)"
  by (induction s) (auto split: list.splits)

lemma length_join: "ws \<noteq> [] \<Longrightarrow> Suc (length (join [c] ws)) = tot ws"
proof (induction ws)
  case (Cons w ws)
  then show ?case by (cases "ws = []") (simp_all add: join_Cons_ne)
qed simp

lemma tot_clean_comps: "tot (clean_comps r st cs) \<le> tot st + tot cs"
proof (induction r st cs rule: clean_comps.induct)
  case (2 r st c cs)
  then show ?case by (cases st) (auto split: if_splits)
qed simp

lemma length_path_clean: "length (path_clean p) \<le> max 1 (length p)"
proof -
  let ?cs = "clean_comps (rooted p) [] (split_on slash p)"
  have tj: "length (join [slash] ?cs) \<le> tot ?cs - 1"
    using length_join[of ?cs slash] by (cases "?cs = []") auto
  show ?thesis
  proof (cases "rooted p")
    case True
    then obtain t where p: "p = slash # t" by (cases p) (auto simp: rooted_def)
    have "?cs = clean_comps (rooted p) [] (split_on slash t)" by (simp add: p)
    then have "tot ?cs \<le> Suc (length t)"
      using tot_clean_comps[of "rooted p" "[]" "split_on slash t"] by (simp add: tot_split_on)
    with tj p True show ?thesis by (simp add: path_clean_def)
  next
    case False
    have "tot ?cs \<le> Suc (length p)"
      using tot_clean_comps[of "rooted p" "[]" "split_on slash p"] by (simp add: tot_split_on)
    with tj False show ?thesis by (auto simp: path_clean_def Let_def)
  qed
qed

lemma clean_comps_elem: "x \<in> set (clean_comps r st cs) \<Longrightarrow>
    x \<in> set st \<or> x = ''..'' \<or> x \<in> set cs \<and> x \<noteq> ''''"
  by (induction r st cs rule: clean_comps.induct) (auto split: list.splits if_splits)

lemma path_clean_relative: "\<not> rooted p \<Longrightarrow> \<not> rooted (path_clean p)"
proof (cases "clean_comps False [] (split_on slash p)")
  case (Cons x xs)
  assume nr: "\<not> rooted p"
  have "x = ''..'' \<or> x \<in> set (split_on slash p) \<and> x \<noteq> ''''"
    using clean_comps_elem[of x False "[]" "split_on slash p"] Cons by simp
  moreover have "hd y \<noteq> slash" if "y \<in> set (split_on slash p)" "y \<noteq> []" for y
    using split_on_free[OF that(1)] hd_in_set[OF that(2)] by auto
  ultimately have "x \<noteq> []" "hd x \<noteq> slash" by auto
  with nr Cons show ?thesis by (auto simp: path_clean_def rooted_def hd_join Let_def)
next
  case Nil
  assume "\<not> rooted p"
  with Nil have "path_clean p = ''.''" by (simp add: path_clean_def)
  then show ?thesis by (simp add: rooted_def)
qed

lemma path_dir_relative: "\<not> rooted d \<Longrightarrow> \<not> rooted (path_dir d)"
proof (cases "slash \<in> set d")
  case True
  assume nr: "\<not> rooted d"
  from True obtain p f where d: "d = p @ slash # f" and f: "slash \<notin> set f"
    by (meson split_list_last)
  with nr have "p \<noteq> []" "\<not> rooted p" by (auto simp: rooted_def hd_append split: if_splits)
  with d f show ?thesis by (simp add: path_dir_append path_clean_trailing path_clean_relative)
qed (simp add: path_dir_no_slash rooted_def)

text \<open>The directory of a relative path is shorter, or is the mount's root itself.\<close>

lemma path_dir_shorter:
  assumes "\<not> rooted d"
  shows "path_dir d = ''.'' \<or> length (path_dir d) < length d"
proof (cases "slash \<in> set d")
  case True
  then obtain p f where d: "d = p @ slash # f" and f: "slash \<notin> set f"
    by (meson split_list_last)
  with assms have "p \<noteq> []" by (auto simp: rooted_def)
  then have "length (path_clean p) < length d" using d length_path_clean[of p] by (cases p) auto
  with d f \<open>p \<noteq> []\<close> show ?thesis by (simp add: path_dir_append path_clean_trailing)
qed (simp add: path_dir_no_slash)

end
