(* ===== verification/Sha1.thy ===== *)
theory Sha1
  imports GoStrings "HOL-Library.Word"
begin

text \<open>
  \<open>crypto/sha1\<close> and \<open>encoding/hex\<close> of Go's standard library, as \<open>sanitizeVolumeID\<close> uses
  them: the digest of a byte string and its 40 hexadecimal digits (FIPS 180-4, on 32-bit
  words). The components only use the digest's length and alphabet.
\<close>

unbundle bit_operations_syntax

type_synonym byte = "8 word"
type_synonym u32 = "32 word"
type_synonym sha1_state = "u32 \<times> u32 \<times> u32 \<times> u32 \<times> u32"

definition rotl :: "nat \<Rightarrow> u32 \<Rightarrow> u32" where
  "rotl n x = push_bit n x OR drop_bit (32 - n) x"

definition sha1_init :: sha1_state where
  "sha1_init = (0x67452301, 0xEFCDAB89, 0x98BADCFE, 0x10325476, 0xC3D2E1F0)"

text \<open>The padded message: a 1 bit, zeros, the length in bits.\<close>

definition bytes32 :: "u32 \<Rightarrow> byte list" where
  "bytes32 w = [ucast (drop_bit 24 w), ucast (drop_bit 16 w), ucast (drop_bit 8 w), ucast w]"

definition bytes64 :: "64 word \<Rightarrow> byte list" where
  "bytes64 w = bytes32 (ucast (drop_bit 32 w)) @ bytes32 (ucast w)"

definition sha1_pad :: "string \<Rightarrow> byte list" where
  "sha1_pad s =
     (let l = length s in
      map of_char s @ 128 # replicate ((119 - l mod 64) mod 64) 0 @ bytes64 (of_nat l * 8))"

fun words_be :: "byte list \<Rightarrow> u32 list" where
  "words_be (a # b # c # d # r) =
     (push_bit 24 (ucast a) OR push_bit 16 (ucast b) OR push_bit 8 (ucast c) OR ucast d) # words_be r"
| "words_be _ = []"

text \<open>The message schedule, latest word first.\<close>

fun sha1_schedule :: "nat \<Rightarrow> u32 list \<Rightarrow> u32 list" where
  "sha1_schedule 0 r = r"
| "sha1_schedule (Suc n) r =
     sha1_schedule n (rotl 1 (r ! 2 XOR r ! 7 XOR r ! 13 XOR r ! 15) # r)"

definition sha1_f :: "nat \<Rightarrow> u32 \<Rightarrow> u32 \<Rightarrow> u32 \<Rightarrow> u32" where
  "sha1_f t b c d =
     (if t < 20 then (b AND c) OR (NOT b AND d)
      else if t < 40 then b XOR c XOR d
      else if t < 60 then (b AND c) OR (b AND d) OR (c AND d)
      else b XOR c XOR d)"

definition sha1_k :: "nat \<Rightarrow> u32" where
  "sha1_k t = (if t < 20 then 0x5A827999 else if t < 40 then 0x6ED9EBA1
               else if t < 60 then 0x8F1BBCDC else 0xCA62C1D6)"

fun sha1_rounds :: "nat \<Rightarrow> u32 list \<Rightarrow> sha1_state \<Rightarrow> sha1_state" where
  "sha1_rounds t [] s = s"
| "sha1_rounds t (w # ws) (a, b, c, d, e) =
     sha1_rounds (Suc t) ws (rotl 5 a + sha1_f t b c d + e + sha1_k t + w, a, rotl 30 b, c, d)"

fun sha1_block :: "u32 list \<Rightarrow> sha1_state \<Rightarrow> sha1_state" where
  "sha1_block ws (a, b, c, d, e) =
     (case sha1_rounds 0 (rev (sha1_schedule 64 (rev ws))) (a, b, c, d, e) of
        (a', b', c', d', e') \<Rightarrow> (a + a', b + b', c + c', d + d', e + e'))"

function sha1_blocks :: "u32 list \<Rightarrow> sha1_state \<Rightarrow> sha1_state" where
  "sha1_blocks ws s = (if length ws < 16 then s else sha1_blocks (drop 16 ws) (sha1_block (take 16 ws) s))"
  by pat_completeness auto
termination by (relation "measure (\<lambda>(ws, s). length ws)") auto

declare sha1_blocks.simps [simp del]

definition sha1_digest :: "string \<Rightarrow> byte list" where
  "sha1_digest s =
     (case sha1_blocks (words_be (sha1_pad s)) sha1_init of
        (a, b, c, d, e) \<Rightarrow> bytes32 a @ bytes32 b @ bytes32 c @ bytes32 d @ bytes32 e)"

definition hex_encode :: "byte list \<Rightarrow> string" where
  "hex_encode bs =
     concat (map (\<lambda>b. [digit_char (unat (drop_bit 4 b)), digit_char (unat (b AND 15))]) bs)"

definition sha1_hex :: "string \<Rightarrow> string" where
  "sha1_hex s = hex_encode (sha1_digest s)"

section \<open>The digest's shape\<close>

lemma length_sha1_digest: "length (sha1_digest s) = 20"
  by (simp add: sha1_digest_def bytes32_def split: prod.split)

lemma length_hex_encode: "length (hex_encode bs) = 2 * length bs"
  by (induction bs) (simp_all add: hex_encode_def)

lemma length_sha1_hex [simp]: "length (sha1_hex s) = 40"
  by (simp add: sha1_hex_def length_hex_encode length_sha1_digest)

definition hex_digits :: string where
  "hex_digits = ''0123456789abcdef''"

lemma digit_char_hex: "n < 16 \<Longrightarrow> digit_char n \<in> set hex_digits"
proof -
  assume "n < 16"
  moreover have "list_all (\<lambda>k. digit_char k \<in> set hex_digits) [0..<16]" by code_simp
  ultimately show ?thesis by (simp add: list_all_iff)
qed

lemma nibbles_lt: "unat (drop_bit 4 (b :: byte)) < 16" "unat (b AND 15) < 16"
proof -
  have "unat b < 256" using unsigned_less[of b] by simp
  then show "unat (drop_bit 4 b) < 16"
    unfolding unat_drop_bit_eq drop_bit_eq_div[of 4 "unat b"] by (intro less_mult_imp_div_less) simp
  have "b AND 15 \<le> 15" by (rule word_and_le1)
  then show "unat (b AND 15) < 16" by (simp add: word_le_nat_alt)
qed

lemma set_sha1_hex: "set (sha1_hex s) \<subseteq> set hex_digits"
  by (auto simp: sha1_hex_def hex_encode_def intro!: digit_char_hex nibbles_lt)

end
