(* ===== verification/VolumeId.thy ===== *)
theory VolumeId
  imports GoPaths Sha1
begin

text \<open>
  Volume identifiers (pkg/driver/controllerserver.go): how CreateVolume builds the ID of a
  volume from the requested name and the bucket of the StorageClass, and how every other
  call reads bucket and prefix back from it.
\<close>

definition sanitizeVolumeID :: "(string \<Rightarrow> string) \<Rightarrow> string \<Rightarrow> string" where
  "sanitizeVolumeID uni volumeID =
     (let v = to_lower uni volumeID in if length v > 63 then sha1_hex v else v)"

definition volumeIDToBucketPrefix :: "string \<Rightarrow> string \<times> string" where
  "volumeIDToBucketPrefix volumeID =
     (case cut slash volumeID of
        (b, Some p) \<Rightarrow> (b, p)
      | (b, None) \<Rightarrow> (volumeID, ''''))"

text \<open>The ID, bucket and prefix CreateVolume starts from.\<close>

definition volumeLocation :: "(string \<Rightarrow> string) \<Rightarrow> string \<Rightarrow> smap \<Rightarrow> string \<times> string \<times> string" where
  "volumeLocation uni name params =
     (let volumeID = sanitizeVolumeID uni name; bucket = mget params ''bucket'' in
      if bucket \<noteq> '''' then (path_join [bucket, volumeID], bucket, volumeID)
      else (volumeID, volumeID, ''''))"

section \<open>Sanitized names\<close>

lemma sanitize_length: "length (sanitizeVolumeID uni s) \<le> 63"
  by (simp add: sanitizeVolumeID_def Let_def)

lemma ascii_lower_not_upper: "\<not> (65 \<le> (of_char (ascii_lower c) :: nat) \<and> (of_char (ascii_lower c) :: nat) \<le> 90)"
  by (auto simp: ascii_lower_def Let_def)

lemma ascii_lower_ascii: "(of_char c :: nat) < 128 \<Longrightarrow> (of_char (ascii_lower c) :: nat) < 128"
  by (auto simp: ascii_lower_def Let_def)

lemma ascii_lower_idem [simp]: "ascii_lower (ascii_lower c) = ascii_lower c"
  using ascii_lower_not_upper[of c] by (simp add: ascii_lower_def Let_def)

lemma ascii_lower_slash: "ascii_lower c = slash \<longleftrightarrow> c = slash" "slash = ascii_lower c \<longleftrightarrow> c = slash"
proof -
  have "of_char (ascii_lower c) = (47 :: nat) \<longleftrightarrow> of_char c = (47 :: nat)"
    by (auto simp: ascii_lower_def Let_def)
  moreover have "x = slash \<longleftrightarrow> of_char x = (47 :: nat)" for x
    using inj_of_char[where 'a = nat, THEN injD, of x slash] by auto
  ultimately show "ascii_lower c = slash \<longleftrightarrow> c = slash" by simp
  then show "slash = ascii_lower c \<longleftrightarrow> c = slash" by auto
qed

lemma ascii_lower_of_slash [simp]: "ascii_lower slash = slash"
  by (simp add: ascii_lower_slash)

lemma hex_digits_lower: "c \<in> set hex_digits \<Longrightarrow> ascii_lower c = c \<and> (of_char c :: nat) < 128 \<and> c \<noteq> slash"
  by (auto simp: hex_digits_def ascii_lower_def Let_def)

lemma to_lower_hex: "to_lower uni (sha1_hex s) = sha1_hex s"
  using set_sha1_hex[of s] hex_digits_lower
  by (force simp: to_lower_def is_ascii_def intro: map_idI)

lemma to_lower_idem: "is_ascii s \<Longrightarrow> to_lower uni (to_lower uni s) = to_lower uni s"
  by (auto simp: to_lower_def is_ascii_def ascii_lower_ascii comp_def)

lemma sanitize_idem: "is_ascii s \<Longrightarrow> sanitizeVolumeID uni (sanitizeVolumeID uni s) = sanitizeVolumeID uni s"
  by (simp add: sanitizeVolumeID_def Let_def to_lower_hex to_lower_idem)

text \<open>A name without a slash keeps none, and is never emptied.\<close>

lemma sanitize_no_slash:
  "is_ascii s \<Longrightarrow> slash \<notin> set s \<Longrightarrow> slash \<notin> set (sanitizeVolumeID uni s)"
  using set_sha1_hex[of "to_lower uni s"] hex_digits_lower[of slash]
  by (auto simp: sanitizeVolumeID_def Let_def to_lower_def ascii_lower_slash)

lemma sanitize_empty_iff: "is_ascii s \<Longrightarrow> sanitizeVolumeID uni s = '''' \<longleftrightarrow> s = ''''"
  using length_sha1_hex[of "to_lower uni s"]
  by (auto simp: sanitizeVolumeID_def Let_def to_lower_def simp del: length_sha1_hex)

section \<open>Reading an identifier back\<close>

lemma bucketPrefix_plain: "slash \<notin> set v \<Longrightarrow> volumeIDToBucketPrefix v = (v, '''')"
  by (simp add: volumeIDToBucketPrefix_def cut_no_sep)

lemma bucketPrefix_pair: "slash \<notin> set b \<Longrightarrow> volumeIDToBucketPrefix (b @ slash # p) = (b, p)"
  by (simp add: volumeIDToBucketPrefix_def cut_append_sep)

text \<open>Nothing of an identifier is lost: bucket and prefix spell it out again.\<close>

lemma bucketPrefix_complete:
  "volumeIDToBucketPrefix v = (b, p) \<Longrightarrow> v = b @ slash # p \<or> v = b \<and> p = ''''"
  by (auto simp: volumeIDToBucketPrefix_def dest: cut_Some cut_None split: prod.splits option.splits)

lemma bucketPrefix_bucket_free: "slash \<notin> set (fst (volumeIDToBucketPrefix v))"
  using cut_fst_free[of slash v] cut_None[of slash v]
  by (auto simp: volumeIDToBucketPrefix_def split: prod.splits option.splits)

text \<open>Where CreateVolume puts a volume is where its ID says it is.\<close>

lemma location_roundtrip:
  assumes "volumeLocation uni name params = (volumeID, bucket, pfx)"
    and "plain (sanitizeVolumeID uni name)"
    and "mget params ''bucket'' \<noteq> '''' \<Longrightarrow> plain (mget params ''bucket'')"
  shows "volumeIDToBucketPrefix volumeID = (bucket, pfx)"
  using assms
  by (auto simp: volumeLocation_def Let_def path_join_plain2 bucketPrefix_pair bucketPrefix_plain
      plain_simps(4) split: if_splits)

section \<open>Properties\<close>

text \<open>The shape of an ID, or of a prefix: 1 to 63 bytes, no upper-case letter and no slash.\<close>

definition wellformed_id :: "string \<Rightarrow> bool" where
  "wellformed_id v \<longleftrightarrow> v \<noteq> '''' \<and> length v \<le> 63 \<and> slash \<notin> set v \<and> list_all (\<lambda>c. ascii_lower c = c) v"

lemma sanitize_lower: "is_ascii s \<Longrightarrow> list_all (\<lambda>c. ascii_lower c = c) (sanitizeVolumeID uni s)"
  using set_sha1_hex[of "to_lower uni s"] hex_digits_lower
  by (auto simp: sanitizeVolumeID_def Let_def to_lower_def list_all_iff)

text \<open>C36. Volume IDs have their shape. From a name of ASCII bytes without a slash come a prefix, or the
  bucket when the StorageClass names none, of 1 to 63 bytes without upper-case letters or slashes,
  however long the name is; and making an ID of an ID changes nothing.\<close>

theorem volume_ids_wellformed:
  assumes "is_ascii name" "slash \<notin> set name" "name \<noteq> ''''" "volumeLocation uni name params = (i, b, p)"
  shows "sanitizeVolumeID uni (sanitizeVolumeID uni name) = sanitizeVolumeID uni name \<and>
    (if mget params ''bucket'' = '''' then p = '''' \<and> i = b \<and> wellformed_id b
     else b = mget params ''bucket'' \<and> wellformed_id p)"
  using assms sanitize_idem[OF assms(1), of uni] sanitize_length[of uni name] sanitize_no_slash[OF assms(1,2), of uni]
    sanitize_empty_iff[OF assms(1), of uni] sanitize_lower[OF assms(1), of uni]
  by (auto simp: volumeLocation_def Let_def wellformed_id_def split: if_splits)

theorem volume_ids_wellformed_witness: "wellformed_id ''pvc-1''"
proof -
  have "volumeLocation id ''PVC-1'' [''bucket'' \<mapsto> ''data''] = (''data/pvc-1'', ''data'', ''pvc-1'')" by code_simp
  moreover have "is_ascii ''PVC-1''" by code_simp
  ultimately show ?thesis using volume_ids_wellformed[of "''PVC-1''" id "[''bucket'' \<mapsto> ''data'']"] by simp
qed

end
