(* ===== verification/S3Client.thy ===== *)
theory S3Client
  imports GoPaths
begin

text \<open>
  The S3 client (pkg/s3/client.go): building a client from a Kubernetes Secret, and the
  bucket operations the controller uses. minio-go, \<open>net/url\<close>, \<open>crypto/x509\<close> and the JSON
  decoder are parameters: \<open>s3deps\<close> holds the pure calls, \<open>minio\<close> the requests to the
  endpoint, each a transformer of the endpoint's state. \<open>s3_contract\<close> states what the S3 API
  documents about those requests (unversioned buckets), over a view of the endpoint as a map
  from buckets to their keys.
\<close>

section \<open>Configuration and clients\<close>

record Config =
  AccessKeyID :: string
  SecretAccessKey :: string
  Region :: string
  Endpoint :: string
  CfgMounter :: string
  Insecure :: bool
  CABundle :: string
  CfgBucket :: string

record SecretS3 =
  biEndpoint :: string
  biRegion :: string
  biAccessKeyID :: string
  biAccessSecretKey :: string

record cosiBucketInfo =
  biBucketName :: string
  biSecretS3 :: SecretS3

record FSMeta =
  BucketName :: string
  Prefix :: string
  MetaMounter :: string
  MountOptions :: "string list"
  CapacityBytes :: int

record url =
  Scheme :: string
  Hostname :: string
  Port :: string

datatype tls = TLSDefault | TLSSkipVerify | TLSRootCAs string

record s3Client =
  clConfig :: Config
  clHost :: string
  clSecure :: bool
  clTLS :: tls

record s3deps =
  url_Parse :: "string \<Rightarrow> err + url"
  AppendCertsFromPEM :: "string \<Rightarrow> bool"
  minio_New :: "string \<Rightarrow> bool \<Rightarrow> err option"
  unmarshal_BucketInfo :: "string \<Rightarrow> err + cosiBucketInfo"

fun error_text :: "err \<Rightarrow> string" where
  "error_text (Status c m) = ''rpc error: code = '' @ code_name c @ '' desc = '' @ m"
| "error_text (Errorf m) = m"
| "error_text (Refused n b) = ''listen refused: HTTP '' @ show_nat n @ '': '' @ b"

definition NewClient :: "s3deps \<Rightarrow> Config \<Rightarrow> err + s3Client" where
  "NewClient d cfg =
     (case url_Parse d (Endpoint cfg) of
        Inl e \<Rightarrow> Inl e
      | Inr u \<Rightarrow>
          (let ssl = (Scheme u = ''https'');
               endpoint = (if Port u \<noteq> '''' then Hostname u @ '':'' @ Port u else Hostname u)
           in if \<not> Insecure cfg \<and> CABundle cfg \<noteq> '''' \<and> \<not> AppendCertsFromPEM d (CABundle cfg)
              then Inl (Errorf ''caBundle contains no valid PEM certificates'')
              else case minio_New d endpoint ssl of
                     Some e \<Rightarrow> Inl e
                   | None \<Rightarrow> Inr \<lparr>clConfig = cfg, clHost = endpoint, clSecure = ssl,
                       clTLS = (if Insecure cfg then TLSSkipVerify
                                else if CABundle cfg \<noteq> '''' then TLSRootCAs (CABundle cfg)
                                else TLSDefault)\<rparr>))"

definition NewClientFromSecret :: "s3deps \<Rightarrow> smap \<Rightarrow> err + s3Client" where
  "NewClientFromSecret d secret =
     (let insecure = parse_bool (mget secret ''insecure''); info = mget secret ''BucketInfo'' in
      if info \<noteq> '''' then
        (case unmarshal_BucketInfo d info of
           Inl e \<Rightarrow> Inl (Errorf (''parsing COSI BucketInfo: '' @ error_text e))
         | Inr bi \<Rightarrow>
             if biBucketName bi = '''' \<or> biEndpoint (biSecretS3 bi) = ''''
             then Inl (Errorf ''COSI BucketInfo missing bucketName or secretS3.endpoint'')
             else NewClient d \<lparr>AccessKeyID = biAccessKeyID (biSecretS3 bi),
                    SecretAccessKey = biAccessSecretKey (biSecretS3 bi),
                    Region = biRegion (biSecretS3 bi), Endpoint = biEndpoint (biSecretS3 bi),
                    CfgMounter = '''', Insecure = insecure, CABundle = mget secret ''caBundle'',
                    CfgBucket = biBucketName bi\<rparr>)
      else NewClient d \<lparr>AccessKeyID = mget secret ''accessKeyID'',
             SecretAccessKey = mget secret ''secretAccessKey'', Region = mget secret ''region'',
             Endpoint = mget secret ''endpoint'', CfgMounter = '''', Insecure = insecure,
             CABundle = mget secret ''caBundle'', CfgBucket = ''''\<rparr>)"

lemma NewClient_config: "NewClient d cfg = Inr c \<Longrightarrow> clConfig c = cfg"
  by (auto simp: NewClient_def Let_def split: sum.splits option.splits if_splits)

lemma NewClient_tls: "NewClient d cfg = Inr c \<Longrightarrow>
    (clTLS c = TLSSkipVerify \<longleftrightarrow> Insecure cfg) \<and>
    (\<not> Insecure cfg \<and> CABundle cfg \<noteq> '''' \<longrightarrow> AppendCertsFromPEM d (CABundle cfg) \<and> clTLS c = TLSRootCAs (CABundle cfg))"
  by (auto simp: NewClient_def Let_def split: sum.splits option.splits if_splits)

lemma secret_client_cases:
  assumes "NewClientFromSecret d secret = Inr c"
  shows "clConfig c = \<lparr>AccessKeyID = mget secret ''accessKeyID'',
             SecretAccessKey = mget secret ''secretAccessKey'', Region = mget secret ''region'',
             Endpoint = mget secret ''endpoint'', CfgMounter = '''',
             Insecure = parse_bool (mget secret ''insecure''),
             CABundle = mget secret ''caBundle'', CfgBucket = ''''\<rparr> \<and> mget secret ''BucketInfo'' = ''''
    \<or> (\<exists>bi. unmarshal_BucketInfo d (mget secret ''BucketInfo'') = Inr bi \<and>
        mget secret ''BucketInfo'' \<noteq> '''' \<and> biBucketName bi \<noteq> '''' \<and>
        CfgBucket (clConfig c) = biBucketName bi \<and> Endpoint (clConfig c) = biEndpoint (biSecretS3 bi) \<and>
        Insecure (clConfig c) = parse_bool (mget secret ''insecure'') \<and>
        CABundle (clConfig c) = mget secret ''caBundle'')"
  using assms
  by (auto simp: NewClientFromSecret_def Let_def dest: NewClient_config split: sum.splits if_splits)

text \<open>A client is bound to an existing bucket exactly when its Secret is a BucketAccess one.\<close>

lemma client_bucket_iff:
  "NewClientFromSecret d secret = Inr c \<Longrightarrow>
    CfgBucket (clConfig c) \<noteq> '''' \<longleftrightarrow> mget secret ''BucketInfo'' \<noteq> ''''"
  by (drule secret_client_cases) auto

section \<open>Requests to the endpoint\<close>

record obj =
  Key :: string
  VersionID :: string

text \<open>
  \<open>ListObjects\<close> yields the objects it streams and the error it ended with, if any.
  Two entries are the Go scheduler's: \<open>rt_listErrSeen\<close> says whether a listing goroutine that
  is able to fail at once has done so before its parent looks; \<open>rt_goOrder\<close> is the order in
  which the removal goroutines of \<open>removeObjectsOneByOne\<close> run.
\<close>

record 's minio =
  mc_BucketExists :: "s3Client \<Rightarrow> string \<Rightarrow> ('s, err + bool) state"
  mc_MakeBucket :: "s3Client \<Rightarrow> string \<Rightarrow> string \<Rightarrow> ('s, err option) state"
  mc_PutObject :: "s3Client \<Rightarrow> string \<Rightarrow> string \<Rightarrow> string \<Rightarrow> ('s, err option) state"
  mc_RemoveObject :: "s3Client \<Rightarrow> string \<Rightarrow> string \<Rightarrow> string \<Rightarrow> ('s, err option) state"
  mc_RemoveBucket :: "s3Client \<Rightarrow> string \<Rightarrow> ('s, err option) state"
  mc_ListObjects :: "s3Client \<Rightarrow> string \<Rightarrow> string \<Rightarrow> ('s, obj list \<times> err option) state"
  mc_RemoveObjects :: "s3Client \<Rightarrow> string \<Rightarrow> obj list \<Rightarrow> ('s, (string \<times> err) list) state"
  rt_listErrSeen :: "('s, bool) state"
  rt_goOrder :: "obj list \<Rightarrow> ('s, obj list) state"

definition BucketExists :: "'s minio \<Rightarrow> s3Client \<Rightarrow> string \<Rightarrow> ('s, err + bool) state" where
  "BucketExists mc client bucketName = mc_BucketExists mc client bucketName"

definition CreateBucket :: "'s minio \<Rightarrow> s3Client \<Rightarrow> string \<Rightarrow> ('s, err option) state" where
  "CreateBucket mc client bucketName = mc_MakeBucket mc client bucketName (Region (clConfig client))"

definition CreatePrefix :: "'s minio \<Rightarrow> s3Client \<Rightarrow> string \<Rightarrow> string \<Rightarrow> ('s, err option) state" where
  "CreatePrefix mc client bucketName pfx =
     (if pfx \<noteq> '''' then mc_PutObject mc client bucketName (pfx @ ''/'') ''''
      else State_Monad.return None)"

text \<open>
  The object channel is unbuffered, so a listing that already yielded an object is still
  blocked on it when \<open>listErr\<close> is read.
\<close>

definition removeObjects :: "'s minio \<Rightarrow> s3Client \<Rightarrow> string \<Rightarrow> string \<Rightarrow> ('s, err option) state" where
  "removeObjects mc client bucketName pfx = do {
     listing \<leftarrow> mc_ListObjects mc client bucketName pfx;
     seen \<leftarrow> rt_listErrSeen mc;
     if seen \<and> fst listing = [] \<and> snd listing \<noteq> None then State_Monad.return (snd listing)
     else do {
       errs \<leftarrow> mc_RemoveObjects mc client bucketName (fst listing);
       State_Monad.return
         (if errs \<noteq> [] then Some (Errorf (''Failed to remove all objects of bucket '' @ bucketName))
          else None)
     }
   }"

text \<open>One removal goroutine; the value counts its error.\<close>

definition removeOne :: "'s minio \<Rightarrow> s3Client \<Rightarrow> string \<Rightarrow> obj \<Rightarrow> ('s, unit option) state" where
  "removeOne mc client bucketName ob = do {
     e \<leftarrow> mc_RemoveObject mc client bucketName (Key ob) (VersionID ob);
     State_Monad.return (case e of None \<Rightarrow> None | Some _ \<Rightarrow> Some ())
   }"

definition parallelism :: nat where "parallelism = 16"

definition removeObjectsOneByOne :: "'s minio \<Rightarrow> s3Client \<Rightarrow> string \<Rightarrow> string \<Rightarrow> ('s, err option) state" where
  "removeObjectsOneByOne mc client bucketName pfx = do {
     listing \<leftarrow> mc_ListObjects mc client bucketName pfx;
     seen \<leftarrow> rt_listErrSeen mc;
     if seen \<and> length (fst listing) \<le> parallelism \<and> snd listing \<noteq> None
     then State_Monad.return (snd listing)
     else do {
       objs \<leftarrow> rt_goOrder mc (fst listing);
       failed \<leftarrow> collect_m (removeOne mc client bucketName) objs;
       State_Monad.return
         (if length failed > 0
          then Some (Errorf (''Failed to remove '' @ show_nat (length failed) @ '' objects out of total ''
                 @ show_nat (length (fst listing)) @ '' of path '' @ bucketName))
          else None)
     }
   }"

definition RemovePrefix :: "'s minio \<Rightarrow> s3Client \<Rightarrow> string \<Rightarrow> string \<Rightarrow> ('s, err option) state" where
  "RemovePrefix mc client bucketName pfx = do {
     e \<leftarrow> removeObjects mc client bucketName pfx;
     if e = None then mc_RemoveObject mc client bucketName pfx ''''
     else do {
       e' \<leftarrow> removeObjectsOneByOne mc client bucketName pfx;
       if e' = None then mc_RemoveObject mc client bucketName pfx ''''
       else State_Monad.return e'
     }
   }"

definition RemoveBucket :: "'s minio \<Rightarrow> s3Client \<Rightarrow> string \<Rightarrow> ('s, err option) state" where
  "RemoveBucket mc client bucketName = do {
     e \<leftarrow> removeObjects mc client bucketName '''';
     if e = None then mc_RemoveBucket mc client bucketName
     else do {
       e' \<leftarrow> removeObjectsOneByOne mc client bucketName '''';
       if e' = None then mc_RemoveBucket mc client bucketName
       else State_Monad.return e'
     }
   }"

end
