(* ===== verification/MountOptions.thy ===== *)
theory MountOptions
  imports S3Client
begin

text \<open>
  \<open>getMeta\<close> (pkg/driver/nodeserver.go): what a volume context says about its mount. The mount
  options come as one string, split by the regular expression
  \<open>([^\s"]+|"([^"\\]+|\\")*")+\<close>, with the quoted pieces unquoted. Every choice of the
  expression is decided by the next byte, so the leftmost-first match Go computes is the one
  these scanners compute.
\<close>

text \<open>\<open>\s\<close> of Go's regular expressions.\<close>

definition re_space :: "char \<Rightarrow> bool" where
  "re_space c \<longleftrightarrow> c = CHR 0x20 \<or> c = CHR 0x09 \<or> c = CHR 0x0A \<or> c = CHR 0x0C \<or> c = CHR 0x0D"

abbreviation quote :: char where "quote \<equiv> CHR 0x22"
abbreviation backslash :: char where "backslash \<equiv> CHR 0x5C"

text \<open>After an opening quote: the body up to its closing quote, and what follows it.\<close>

fun scan_quoted :: "string \<Rightarrow> (string \<times> string) option" where
  "scan_quoted [] = None"
| "scan_quoted [c] = (if c = quote then Some ([], []) else None)"
| "scan_quoted (c # d # ds) =
     (if c = quote then Some ([], d # ds)
      else if c = backslash then
        (if d = quote then map_option (\<lambda>(b, r). (c # d # b, r)) (scan_quoted ds) else None)
      else map_option (\<lambda>(b, r). (c # b, r)) (scan_quoted (d # ds)))"

lemma scan_quoted_split: "scan_quoted s = Some (b, r) \<Longrightarrow> s = b @ quote # r"
  by (induction s arbitrary: b rule: scan_quoted.induct) (auto split: if_splits list.splits)

lemma scan_quoted_length: "scan_quoted s = Some (b, r) \<Longrightarrow> length r < length s"
  by (drule scan_quoted_split) simp

text \<open>The longest option at the head of a string (empty if there is none), and the rest.\<close>

function scan_option :: "string \<Rightarrow> string \<times> string" where
  "scan_option [] = ([], [])"
| "scan_option (c # cs) =
     (if c = quote then
        (case scan_quoted cs of
           None \<Rightarrow> ([], c # cs)
         | Some (b, r) \<Rightarrow> (case scan_option r of (t, r') \<Rightarrow> (quote # b @ quote # t, r')))
      else if re_space c then ([], c # cs)
      else (case scan_option cs of (t, r) \<Rightarrow> (c # t, r)))"
  by pat_completeness auto
termination by (relation "measure length") (auto dest: scan_quoted_length)

lemma scan_option_split: "scan_option s = (t, r) \<Longrightarrow> s = t @ r"
  by (induction s arbitrary: t r rule: scan_option.induct)
    (auto split: if_splits option.splits prod.splits dest: scan_quoted_split)

text \<open>\<open>re.FindAll\<close>: the options from left to right; a byte no option starts at is passed over.\<close>

function find_options :: "string \<Rightarrow> string list" where
  "find_options [] = []"
| "find_options (c # cs) =
     (case scan_option (c # cs) of
        ([], r) \<Rightarrow> find_options cs
      | (t # ts, r) \<Rightarrow> (t # ts) # find_options r)"
  by pat_completeness auto
termination by (relation "measure length") (auto dest!: sym[THEN scan_option_split] simp del: scan_option.simps)

text \<open>\<open>\\(.)\<close> replaced by its group: \<open>.\<close> is any byte but a newline.\<close>

fun unescape_option :: "string \<Rightarrow> string" where
  "unescape_option [] = []"
| "unescape_option [c] = [c]"
| "unescape_option (c # d # ds) =
     (if c = backslash \<and> d \<noteq> CHR 0x0A then d # unescape_option ds
      else c # unescape_option (d # ds))"

text \<open>Every quoted piece of an option loses its quotes and escapes.\<close>

function unquote_option :: "string \<Rightarrow> string" where
  "unquote_option [] = []"
| "unquote_option (c # cs) =
     (if c = quote then
        (case scan_quoted cs of
           None \<Rightarrow> c # unquote_option cs
         | Some (b, r) \<Rightarrow> unescape_option b @ unquote_option r)
      else c # unquote_option cs)"
  by pat_completeness auto
termination by (relation "measure length") (auto dest: scan_quoted_length)

definition parse_options :: "string \<Rightarrow> string list" where
  "parse_options s = map unquote_option (find_options s)"

definition cosiBucketContextKey :: string where
  "cosiBucketContextKey = ''csi.lazedo.dev/cosi-bucket''"

definition getMeta :: "string \<Rightarrow> string \<Rightarrow> smap \<Rightarrow> FSMeta" where
  "getMeta bucketName pfx ctx =
     (let b = mget ctx cosiBucketContextKey;
          mountOptStr = mget ctx ''options''
      in \<lparr>BucketName = (if b \<noteq> '''' then b else bucketName),
          Prefix = (if b \<noteq> '''' then '''' else pfx),
          MetaMounter = mget ctx ''mounter'',
          MountOptions = (if mountOptStr \<noteq> '''' then parse_options mountOptStr else []),
          CapacityBytes = fst (parse_int64 (mget ctx ''capacity''))\<rparr>)"

section \<open>Quoting and parsing\<close>

text \<open>How an option with spaces or quotes is written so that it is read as one option.\<close>

fun escape_quotes :: "string \<Rightarrow> string" where
  "escape_quotes [] = []"
| "escape_quotes (c # cs) = (if c = quote then backslash # quote # escape_quotes cs else c # escape_quotes cs)"

definition quote_option :: "string \<Rightarrow> string" where
  "quote_option s = quote # escape_quotes s @ [quote]"

lemma scan_escaped:
  "backslash \<notin> set s \<Longrightarrow> scan_quoted (escape_quotes s @ quote # r) = Some (escape_quotes s, r)"
proof (induction s)
  case (Cons c s)
  obtain d ds where d: "escape_quotes s @ quote # r = d # ds" by (cases "escape_quotes s") auto
  with Cons show ?case by auto
qed (cases r, simp_all)

lemma unescape_escaped: "backslash \<notin> set s \<Longrightarrow> unescape_option (escape_quotes s) = s"
proof (induction s)
  case (Cons c s)
  then show ?case by (cases "escape_quotes s") auto
qed simp

lemma unquote_quoted: "backslash \<notin> set s \<Longrightarrow> unquote_option (quote_option s) = s"
  by (simp add: quote_option_def scan_escaped unescape_escaped)

lemma scan_option_quoted:
  assumes "backslash \<notin> set s" "r = [] \<or> re_space (hd r)"
  shows "scan_option (quote_option s @ r) = (quote_option s, r)"
proof -
  have "scan_option r = ([], r)" using assms(2) by (cases r) (auto simp: re_space_def)
  then show ?thesis using assms(1) by (simp add: quote_option_def scan_escaped)
qed

text \<open>A word without spaces or quotes is read as itself.\<close>

definition bare :: "string \<Rightarrow> bool" where
  "bare w \<longleftrightarrow> w \<noteq> [] \<and> (\<forall>c \<in> set w. \<not> re_space c \<and> c \<noteq> quote)"

lemma scan_option_bare:
  assumes "\<forall>c \<in> set w. \<not> re_space c \<and> c \<noteq> quote" "r = [] \<or> re_space (hd r)"
  shows "scan_option (w @ r) = (w, r)"
  using assms
proof (induction w)
  case Nil
  then show ?case by (cases r) (auto simp: re_space_def)
qed auto

lemma unquote_bare: "\<forall>c \<in> set w. \<not> re_space c \<and> c \<noteq> quote \<Longrightarrow> unquote_option w = w"
  by (induction w) auto

text \<open>One written option: bare if it can be, quoted otherwise.\<close>

definition show_option :: "string \<Rightarrow> string" where
  "show_option s = (if bare s then s else quote_option s)"

lemma show_option_ne: "show_option s \<noteq> []"
  by (auto simp: show_option_def bare_def quote_option_def)

lemma scan_show_option:
  "backslash \<notin> set s \<or> bare s \<Longrightarrow> r = [] \<or> re_space (hd r) \<Longrightarrow> scan_option (show_option s @ r) = (show_option s, r)"
  using scan_option_quoted[of s r] scan_option_bare[of s r] by (auto simp: show_option_def bare_def)

lemma unquote_show_option: "backslash \<notin> set s \<or> bare s \<Longrightarrow> unquote_option (show_option s) = s"
  by (auto simp: show_option_def unquote_quoted unquote_bare bare_def)

lemma find_options_step:
  assumes "t \<noteq> []" "scan_option (t @ r) = (t, r)"
  shows "find_options (t @ r) = t # find_options r"
  using assms by (cases t) (auto simp del: scan_option.simps)

lemma find_options_space: "re_space c \<Longrightarrow> find_options (c # r) = find_options r"
  by (auto simp: re_space_def)

lemma find_show_options:
  "(\<And>s. s \<in> set opts \<Longrightarrow> backslash \<notin> set s \<or> bare s) \<Longrightarrow>
    find_options (join '' '' (map show_option opts)) = map show_option opts"
proof (induction opts)
  case (Cons s opts)
  show ?case
  proof (cases "opts = []")
    case True
    with Cons.prems find_options_step[of "show_option s" "[]"] scan_show_option[of s "[]"]
    show ?thesis by (simp add: show_option_ne del: scan_option.simps find_options.simps(2))
  next
    case False
    let ?r = "CHR '' '' # join '' '' (map show_option opts)"
    have "find_options (show_option s @ ?r) = show_option s # find_options ?r"
      using Cons.prems by (intro find_options_step scan_show_option) (auto simp: re_space_def show_option_ne)
    with Cons False show ?thesis
      by (simp add: join_Cons_ne find_options_space[of "CHR '' ''"] re_space_def del: scan_option.simps find_options.simps(2))
  qed
qed simp

lemma parse_show_options:
  "(\<And>s. s \<in> set opts \<Longrightarrow> backslash \<notin> set s \<or> bare s) \<Longrightarrow>
    parse_options (join '' '' (map show_option opts)) = opts"
  by (simp add: parse_options_def find_show_options map_idI unquote_show_option)

end
