(* ===== verification/Cosi.thy ===== *)
theory Cosi
  imports S3Client
begin

text \<open>
  COSI handles (pkg/driver/cosi.go): resolving a BucketAccess named in a volume's context to
  credentials, gated on the claim being ready and the access granted. The Kubernetes API is
  the record \<open>k8s\<close>, each request a transformer of the cluster's state; the driver holds it as
  an option (nil out of cluster). An unstructured object is known by the two readings the
  code makes of it, which give the zero value for an absent field.
\<close>

record unstructured =
  nested_bool :: "string list \<Rightarrow> bool"
  nested_string :: "string list \<Rightarrow> string"

record pv =
  pvCSI :: bool  \<comment> \<open>whether \<open>spec.csi\<close> is set; the fields below are its\<close>
  pvDriver :: string
  pvVolumeHandle :: string
  pvVolumeAttributes :: smap
  pvNodeStageSecretRef :: "(string \<times> string) option"  \<comment> \<open>name, namespace\<close>
  pvAccessModes :: "string list"

record 'o k8s =
  get_BucketAccess :: "string \<Rightarrow> string \<Rightarrow> ('o, err + unstructured) state"  \<comment> \<open>namespace, name\<close>
  get_BucketClaim :: "string \<Rightarrow> string \<Rightarrow> ('o, err + unstructured) state"
  get_Secret :: "string \<Rightarrow> string \<Rightarrow> ('o, err + smap) state"
  get_PVC :: "string \<Rightarrow> string \<Rightarrow> ('o, err + smap) state"  \<comment> \<open>the claim's annotations\<close>
  list_PVs :: "('o, err + pv list) state"

definition bucketAccessNameKey :: string where
  "bucketAccessNameKey = ''csi.lazedo.dev/bucket-access-name''"
definition bucketAccessNsKey :: string where
  "bucketAccessNsKey = ''csi.lazedo.dev/bucket-access-namespace''"
definition bucketAccessAnnotation :: string where
  "bucketAccessAnnotation = ''csi.lazedo.dev/bucket-access''"
definition pvcNameParam :: string where
  "pvcNameParam = ''csi.storage.k8s.io/pvc/name''"
definition pvcNamespaceParam :: string where
  "pvcNamespaceParam = ''csi.storage.k8s.io/pvc/namespace''"

text \<open>A Secret's data as a map of strings (Go strings and byte slices are the same bytes).\<close>

definition secretDataToStringMap :: "smap \<Rightarrow> smap" where
  "secretDataToStringMap data = (\<lambda>k. map_option (\<lambda>v. v) (data k))"

definition at :: "string \<Rightarrow> string \<Rightarrow> string" where
  "at namespace name = namespace @ ''/'' @ name"

definition resolveCOSISecret :: "'o k8s option \<Rightarrow> string \<Rightarrow> string \<Rightarrow> ('o, err + smap) state" where
  "resolveCOSISecret c name namespace =
     (case c of
        None \<Rightarrow> State_Monad.return (Inl (Errorf (''no in-cluster client to resolve BucketAccess '' @ at namespace name)))
      | Some k \<Rightarrow> do {
          r \<leftarrow> get_BucketAccess k namespace name;
          case r of
            Inl e \<Rightarrow> State_Monad.return (Inl (Errorf (''get BucketAccess '' @ at namespace name @ '': '' @ error_text e)))
          | Inr ba \<Rightarrow>
              (let granted = nested_bool ba [''status'', ''accessGranted''];
                   claimName = nested_string ba [''spec'', ''bucketClaimName''];
                   secretName = nested_string ba [''spec'', ''credentialsSecretName'']
               in if claimName = '''' \<or> secretName = ''''
                  then State_Monad.return (Inl (Errorf (''BucketAccess '' @ at namespace name
                         @ '' missing bucketClaimName or credentialsSecretName'')))
                  else do {
                    r' \<leftarrow> get_BucketClaim k namespace claimName;
                    case r' of
                      Inl e \<Rightarrow> State_Monad.return (Inl (Errorf (''get BucketClaim '' @ at namespace claimName @ '': '' @ error_text e)))
                    | Inr claim \<Rightarrow>
                        (if \<not> nested_bool claim [''status'', ''bucketReady'']
                         then State_Monad.return (Inl (Errorf (''BucketClaim '' @ at namespace claimName @ '' not ready yet'')))
                         else if \<not> granted
                         then State_Monad.return (Inl (Errorf (''BucketAccess '' @ at namespace name @ '' access not granted yet'')))
                         else do {
                           r'' \<leftarrow> get_Secret k namespace secretName;
                           State_Monad.return
                             (case r'' of
                                Inl e \<Rightarrow> Inl (Errorf (''get credentials Secret '' @ at namespace secretName @ '': '' @ error_text e))
                              | Inr sec \<Rightarrow> Inr (secretDataToStringMap sec))
                         })
                  })
        })"

definition bucketAccessHandle :: "'o k8s option \<Rightarrow> smap \<Rightarrow> ('o, (string \<times> string) option) state" where
  "bucketAccessHandle c params =
     (let pvcName = mget params pvcNameParam; pvcNS = mget params pvcNamespaceParam in
      case c of
        None \<Rightarrow> State_Monad.return None
      | Some k \<Rightarrow>
          if pvcName = '''' \<or> pvcNS = '''' then State_Monad.return None
          else do {
            r \<leftarrow> get_PVC k pvcNS pvcName;
            State_Monad.return
              (case r of
                 Inl e \<Rightarrow> None
               | Inr annotations \<Rightarrow>
                   let ba = mget annotations bucketAccessAnnotation in
                   if ba = '''' then None else Some (ba, pvcNS))
          })"

definition secretsForVolume :: "'o k8s option \<Rightarrow> smap \<Rightarrow> smap \<Rightarrow> ('o, err + smap) state" where
  "secretsForVolume c csiSecrets volumeContext =
     (let name = mget volumeContext bucketAccessNameKey; ns = mget volumeContext bucketAccessNsKey in
      if name = '''' then State_Monad.return (Inr csiSecrets)
      else if ns = '''' then State_Monad.return (Inl (Errorf (bucketAccessNameKey @ '' set without '' @ bucketAccessNsKey)))
      else resolveCOSISecret c name ns)"

section \<open>The gate\<close>

text \<open>The cluster states in which the three objects of a resolution are read.\<close>

definition claim_state :: "'o k8s \<Rightarrow> string \<Rightarrow> string \<Rightarrow> 'o \<Rightarrow> 'o" where
  "claim_state k name namespace s = exec (get_BucketAccess k namespace name) s"

lemma secretData_id [simp]: "secretDataToStringMap d = d"
  by (rule ext) (simp add: secretDataToStringMap_def option.map_ident)

lemma resolve_Inr:
  assumes "val_of (resolveCOSISecret c name namespace) s = Inr secrets"
  obtains k ba claim where "c = Some k"
    and "val_of (get_BucketAccess k namespace name) s = Inr ba"
    and "nested_bool ba [''status'', ''accessGranted'']"
    and "val_of (get_BucketClaim k namespace (nested_string ba [''spec'', ''bucketClaimName'']))
          (claim_state k name namespace s) = Inr claim"
    and "nested_bool claim [''status'', ''bucketReady'']"
    and "nested_string ba [''spec'', ''credentialsSecretName''] \<noteq> ''''"
    and "val_of (get_Secret k namespace (nested_string ba [''spec'', ''credentialsSecretName'']))
          (exec (get_BucketClaim k namespace (nested_string ba [''spec'', ''bucketClaimName'']))
            (claim_state k name namespace s)) = Inr secrets"
proof (cases c)
  case None
  with assms show thesis by (simp add: resolveCOSISecret_def)
next
  case (Some k)
  with assms show thesis
    by (auto simp: resolveCOSISecret_def claim_state_def Let_def intro!: that
        split: sum.splits if_splits)
qed

text \<open>A volume without a handle takes the request's secrets and asks the cluster nothing.\<close>

lemma secrets_plain:
  "mget volumeContext bucketAccessNameKey = '''' \<Longrightarrow>
    secretsForVolume c csiSecrets volumeContext = State_Monad.return (Inr csiSecrets)"
  by (simp add: secretsForVolume_def)

lemma secrets_handle:
  "mget volumeContext bucketAccessNameKey \<noteq> '''' \<Longrightarrow> mget volumeContext bucketAccessNsKey \<noteq> '''' \<Longrightarrow>
    secretsForVolume c csiSecrets volumeContext =
      resolveCOSISecret c (mget volumeContext bucketAccessNameKey) (mget volumeContext bucketAccessNsKey)"
  by (simp add: secretsForVolume_def)

end
