(* ===== verification/World.thy ===== *)
theory World
  imports Cosi
begin

text \<open>
  The state of the node plugin and the outside it runs in.

  \<open>'o os\<close> holds the calls that leave the program: the kernel, the mount helpers of k8s-mount-utils,
  process listings, systemd, and two things only the Go runtime decides (the order a map is
  ranged over, the clock). Each is a transformer of an outside state \<open>'o\<close> that is never defined.
  \<open>'o world\<close> is the plugin's own memory, the fields of \<open>supervisor\<close> with the contexts and
  goroutines it starts, next to that outside; \<open>outside_m\<close> runs an outside call in it.
\<close>

section \<open>The outside\<close>

text \<open>An error of a file operation: its number and its text.\<close>

type_synonym ioerr = "errno \<times> string"

record unitInfo =
  ActiveState :: "string option"  \<comment> \<open>None when the property is no string\<close>
  ExecArgs :: "string list option"  \<comment> \<open>the arguments of the first ExecStart entry, if it has them\<close>

record 'o os =
  os_Statfs :: "path \<Rightarrow> ('o, errno option) state"
  os_DetachUnmount :: "path \<Rightarrow> ('o, errno option) state"
  os_Setxattr :: "path \<Rightarrow> string \<Rightarrow> ('o, errno option) state"
  os_Stat :: "path \<Rightarrow> ('o, ioerr + (nat \<times> int)) state"  \<comment> \<open>size and modification time\<close>
  os_IsDir :: "path \<Rightarrow> ('o, bool) state"
  os_ReadFile :: "path \<Rightarrow> ('o, ioerr + string) state"
  os_WriteFile :: "path \<Rightarrow> string \<Rightarrow> nat \<Rightarrow> ('o, ioerr option) state"
  os_AppendFile :: "path \<Rightarrow> string \<Rightarrow> ('o, ioerr option) state"
  os_OverwriteFile :: "path \<Rightarrow> string \<Rightarrow> ('o, ioerr option) state"  \<comment> \<open>no truncation\<close>
  os_Rename :: "path \<Rightarrow> path \<Rightarrow> ('o, ioerr option) state"
  os_Remove :: "path \<Rightarrow> ('o, ioerr option) state"
  os_Chtimes :: "path \<Rightarrow> int \<Rightarrow> ('o, ioerr option) state"
  os_MkdirAll :: "path \<Rightarrow> ('o, ioerr option) state"
  os_Readlink :: "path \<Rightarrow> ('o, string option) state"
  os_ReadDir :: "path \<Rightarrow> ('o, (string \<times> bool) list option) state"  \<comment> \<open>names, whether directories\<close>
  os_Getenv :: "string \<Rightarrow> ('o, string) state"
  os_Run :: "string \<Rightarrow> string list \<Rightarrow> string list \<Rightarrow> ('o, string \<times> bool) state"
    \<comment> \<open>command, arguments, added environment; the output and whether it succeeded\<close>
  os_Sleep :: "nat \<Rightarrow> ('o, unit) state"  \<comment> \<open>milliseconds\<close>
  os_SleepCtx :: "nat \<Rightarrow> nat \<Rightarrow> ('o, bool) state"  \<comment> \<open>context, milliseconds: False if it ended first\<close>
  os_Now :: "('o, nat) state"  \<comment> \<open>milliseconds\<close>
  mu_IsLikelyNotMountPoint :: "path \<Rightarrow> ('o, ioerr + bool) state"
  mu_CleanupMountPoint :: "path \<Rightarrow> ('o, err option) state"
  mu_Unmount :: "path \<Rightarrow> ('o, err option) state"
  ps_Processes :: "('o, err + nat list) state"
  ps_Signal0 :: "nat \<Rightarrow> ('o, bool) state"  \<comment> \<open>whether signal 0 could be sent\<close>
  ps_Wait :: "nat \<Rightarrow> ('o, unit) state"
  sd_Escape :: "string \<Rightarrow> string"  \<comment> \<open>go-systemd's PathBusEscape\<close>
  sd_New :: "('o, err option) state"
  sd_ListUnits :: "string \<Rightarrow> ('o, err + string list) state"  \<comment> \<open>the active states found\<close>
  sd_StopUnit :: "string \<Rightarrow> ('o, err option) state"
  sd_StopUnitWait :: "string \<Rightarrow> ('o, err option) state"
  sd_ResetFailed :: "string \<Rightarrow> ('o, unit) state"
  sd_GetProperties :: "string \<Rightarrow> ('o, unitInfo option) state"
  sd_StartTransient :: "string \<Rightarrow> string \<Rightarrow> string list \<Rightarrow> string list \<Rightarrow> ('o, err option) state"
    \<comment> \<open>unit, description, ExecStart, Environment\<close>
  rt_range :: "string set \<Rightarrow> ('o, string list) state"  \<comment> \<open>the order a map is ranged over\<close>

text \<open>Ranging over a map visits every key once, and changes nothing.\<close>

definition range_doc :: "'o os \<Rightarrow> bool" where
  "range_doc os \<longleftrightarrow> (\<forall>ks s. finite ks \<longrightarrow>
     set (val_of (rt_range os ks) s) = ks \<and> distinct (val_of (rt_range os ks) s) \<and>
     exec (rt_range os ks) s = s)"

section \<open>The supervisor's memory\<close>

record stagedVolume =
  svVolumeID :: string
  svStagePath :: path
  svVolumeContext :: smap
  svSecrets :: smap
  svPublishes :: "path list"
  svRewarm :: bool
  svDead :: "string list"

text \<open>Contexts are numbered as they are made; a watch and a warming own one each.\<close>

type_synonym ctx = nat

record watchRef =
  wrVolumeID :: string
  wrStage :: path
  wrRewarm :: bool
  wrCtx :: ctx

datatype task =
    WatchRun watchRef smap smap  \<comment> \<open>\<open>go w.run(volumeContext, secrets)\<close>\<close>
  | WarmUp ctx "path list"  \<comment> \<open>\<open>go warmUp(ctx, paths...)\<close>\<close>

record 'o world =
  vols :: "string \<rightharpoonup> stagedVolume"
  warming :: "string \<rightharpoonup> ctx"
  watches :: "string \<rightharpoonup> watchRef"
  nextCtx :: ctx
  cancelled :: "ctx set"
  spawned :: "task list"
  outside :: 'o

definition outside_m :: "('o, 'a) state \<Rightarrow> ('o world, 'a) state" where
  "outside_m m = State (\<lambda>w. (val_of m (outside w), w\<lparr>outside := exec m (outside w)\<rparr>))"

lemma val_of_outside [simp]: "val_of (outside_m m) w = val_of m (outside w)"
  by (simp add: outside_m_def)

lemma exec_outside [simp]: "exec (outside_m m) w = w\<lparr>outside := exec m (outside w)\<rparr>"
  by (simp add: outside_m_def)

lemma exec_iter_outside:
  "exec (iter_m (\<lambda>x. outside_m (f x)) xs) w = w\<lparr>outside := exec (iter_m f xs) (outside w)\<rparr>"
  by (induction xs arbitrary: w) simp_all

text \<open>\<open>context.WithCancel(context.Background())\<close>, the cancel function, and \<open>ctx.Err() != nil\<close>.\<close>

definition newCtx :: "('o world, ctx) state" where
  "newCtx = do { w \<leftarrow> State_Monad.get; State_Monad.update (\<lambda>w. w\<lparr>nextCtx := Suc (nextCtx w)\<rparr>);
     State_Monad.return (nextCtx w) }"

definition cancel :: "ctx \<Rightarrow> ('o world, unit) state" where
  "cancel c = State_Monad.update (\<lambda>w. w\<lparr>cancelled := insert c (cancelled w)\<rparr>)"

definition spawn :: "task \<Rightarrow> ('o world, unit) state" where
  "spawn t = State_Monad.update (\<lambda>w. w\<lparr>spawned := spawned w @ [t]\<rparr>)"

lemma ctx_simps [simp]:
  "val_of newCtx w = nextCtx w" "exec newCtx w = w\<lparr>nextCtx := Suc (nextCtx w)\<rparr>"
  "exec (cancel c) w = w\<lparr>cancelled := insert c (cancelled w)\<rparr>"
  "exec (spawn t) w = w\<lparr>spawned := spawned w @ [t]\<rparr>"
  by (simp_all add: newCtx_def cancel_def spawn_def)

end
