(* ===== verification/StateFile.thy ===== *)
theory StateFile
  imports World "HOL-Library.List_Lexorder" "HOL-Library.Char_ord"
begin

text \<open>
  The supervisor's state file (persist and load of pkg/driver/supervisor.go): the JSON document
  the struct tags of \<open>stagedVolume\<close> ask for, with \<open>omitempty\<close> and the keys of a map in order,
  and reading such a document back. The text of a document is encoding/json's, the two fields
  \<open>pMarshal\<close> and \<open>pUnmarshal\<close> of the plugin; \<open>json_doc\<close> is what is used of them.
\<close>

datatype json = JNull | JBool bool | JStr string | JArr "json list" | JObj "(string \<times> json) list"

record 'o plugin =
  pOS :: "'o os"
  pStateFile :: path
  pDriver :: string
  pNodeID :: string
  pK8s :: "'o k8s option"
  pDeps :: s3deps
  pMarshal :: "json \<Rightarrow> string"
  pUnmarshal :: "string \<Rightarrow> json option"

definition json_doc :: "'o plugin \<Rightarrow> bool" where
  "json_doc p \<longleftrightarrow> (\<forall>j. pUnmarshal p (pMarshal p j) = Some j)"

section \<open>Encoding\<close>

definition json_map :: "('a \<Rightarrow> json) \<Rightarrow> (string \<rightharpoonup> 'a) \<Rightarrow> json" where
  "json_map f m = JObj (map (\<lambda>k. (k, f (the (m k)))) (sorted_list_of_set (dom m)))"

definition json_smap :: "smap \<Rightarrow> json" where
  "json_smap m = json_map JStr m"

definition json_list :: "string list \<Rightarrow> json" where
  "json_list xs = JArr (map JStr xs)"

text \<open>The fields of a \<open>stagedVolume\<close> in the order of the struct; an empty one with \<open>omitempty\<close> is left out.\<close>

definition json_volume :: "stagedVolume \<Rightarrow> json" where
  "json_volume v = JObj
     ([(''volumeId'', JStr (svVolumeID v)), (''stagePath'', JStr (svStagePath v))]
      @ (if svVolumeContext v = Map.empty then [] else [(''volumeContext'', json_smap (svVolumeContext v))])
      @ (if svSecrets v = Map.empty then [] else [(''secrets'', json_smap (svSecrets v))])
      @ (if svPublishes v = [] then [] else [(''publishes'', json_list (svPublishes v))])
      @ (if svRewarm v then [(''rewarm'', JBool True)] else [])
      @ (if svDead v = [] then [] else [(''dead'', json_list (svDead v))]))"

definition json_vols :: "(string \<rightharpoonup> stagedVolume) \<Rightarrow> json" where
  "json_vols m = json_map json_volume m"

section \<open>Decoding\<close>

text \<open>A value of the wrong kind is an error; \<open>null\<close> and a missing field leave the zero value.\<close>

fun str_of :: "json \<Rightarrow> string option" where
  "str_of (JStr s) = Some s"
| "str_of JNull = Some ''''"
| "str_of _ = None"

fun bool_of :: "json \<Rightarrow> bool option" where
  "bool_of (JBool b) = Some b"
| "bool_of JNull = Some False"
| "bool_of _ = None"

fun all_some :: "'a option list \<Rightarrow> 'a list option" where
  "all_some [] = Some []"
| "all_some (x # xs) = (case x of None \<Rightarrow> None | Some y \<Rightarrow> map_option (Cons y) (all_some xs))"

fun list_of :: "json \<Rightarrow> string list option" where
  "list_of (JArr xs) = all_some (map str_of xs)"
| "list_of JNull = Some []"
| "list_of _ = None"

text \<open>An object as a map; a key that occurs again overwrites.\<close>

fun map_from :: "(json \<Rightarrow> 'a option) \<Rightarrow> json \<Rightarrow> (string \<rightharpoonup> 'a) option" where
  "map_from f (JObj kvs) =
     (case all_some (map (\<lambda>(k, j). map_option (Pair k) (f j)) kvs) of
        None \<Rightarrow> None | Some al \<Rightarrow> Some (map_of (rev al)))"
| "map_from f JNull = Some Map.empty"
| "map_from f _ = None"

definition field :: "(string \<times> json) list \<Rightarrow> string \<Rightarrow> json" where
  "field kvs k = (case map_of (rev kvs) k of None \<Rightarrow> JNull | Some j \<Rightarrow> j)"

fun volume_of :: "json \<Rightarrow> stagedVolume option" where
  "volume_of (JObj kvs) =
     (case (str_of (field kvs ''volumeId''), str_of (field kvs ''stagePath''),
            map_from str_of (field kvs ''volumeContext''), map_from str_of (field kvs ''secrets''),
            list_of (field kvs ''publishes''), bool_of (field kvs ''rewarm''), list_of (field kvs ''dead'')) of
        (Some i, Some sp, Some vc, Some se, Some pu, Some rw, Some de) \<Rightarrow>
          Some \<lparr>svVolumeID = i, svStagePath = sp, svVolumeContext = vc, svSecrets = se,
            svPublishes = pu, svRewarm = rw, svDead = de\<rparr>
      | _ \<Rightarrow> None)"
| "volume_of _ = None"

definition vols_of :: "json \<Rightarrow> (string \<rightharpoonup> stagedVolume) option" where
  "vols_of j = map_from volume_of j"

section \<open>The operations\<close>

definition persist :: "'o plugin \<Rightarrow> ('o world, unit) state" where
  "persist p = do {
     w \<leftarrow> State_Monad.get;
     let tmp = pStateFile p @ ''.tmp'';
     e \<leftarrow> outside_m (os_WriteFile (pOS p) tmp (pMarshal p (json_vols (vols w))) 384);
     if e = None then do {
       _ \<leftarrow> outside_m (os_Rename (pOS p) tmp (pStateFile p));
       State_Monad.return ()
     } else State_Monad.return ()
   }"

definition load :: "'o plugin \<Rightarrow> ('o world, unit) state" where
  "load p = do {
     b \<leftarrow> outside_m (os_ReadFile (pOS p) (pStateFile p));
     case b of
       Inl e \<Rightarrow> State_Monad.return ()
     | Inr text \<Rightarrow>
         (case Option.bind (pUnmarshal p text) vols_of of
            None \<Rightarrow> State_Monad.return ()
          | Some m \<Rightarrow> State_Monad.update (\<lambda>w. w\<lparr>vols := m\<rparr>))
   }"

text \<open>Persisting changes nothing of the plugin's memory.\<close>

lemma exec_persist: "\<exists>s. exec (persist p) w = w\<lparr>outside := s\<rparr>"
  by (auto simp: persist_def Let_def)

lemma persist_fields [simp]:
  "vols (exec (persist p) w) = vols w" "warming (exec (persist p) w) = warming w"
  "watches (exec (persist p) w) = watches w" "nextCtx (exec (persist p) w) = nextCtx w"
  "cancelled (exec (persist p) w) = cancelled w" "spawned (exec (persist p) w) = spawned w"
  by (simp_all add: persist_def Let_def)

section \<open>What is written is read back\<close>

lemma all_some_map: "(\<And>x. x \<in> set xs \<Longrightarrow> f (g x) = Some (h x)) \<Longrightarrow> all_some (map (f \<circ> g) xs) = Some (map h xs)"
  by (induction xs) auto

lemma map_from_map:
  assumes "finite (dom m)" "\<And>k v. m k = Some v \<Longrightarrow> f (g v) = Some v"
  shows "map_from f (json_map g m) = Some m"
proof -
  let ?ks = "sorted_list_of_set (dom m)"
  have ks: "set ?ks = dom m" using assms(1) by simp
  have "all_some (map ((\<lambda>(k, j). map_option (Pair k) (f j)) \<circ> (\<lambda>k. (k, g (the (m k))))) ?ks)
      = Some (map (\<lambda>k. (k, the (m k))) ?ks)"
    by (rule all_some_map) (use assms in \<open>auto simp: dom_def\<close>)
  moreover have "map_of (rev (map (\<lambda>k. (k, the (m k))) ?ks)) = m"
  proof
    fix k
    have "map_of (map (\<lambda>k. (k, the (m k))) xs) k = (if k \<in> set xs then Some (the (m k)) else None)" for xs
      by (induction xs) auto
    from this[of "rev ?ks"] show "map_of (rev (map (\<lambda>k. (k, the (m k))) ?ks)) k = m k"
      using ks by (auto simp: rev_map)
  qed
  ultimately show ?thesis by (simp add: json_map_def)
qed

lemma smap_back: "finite (dom m) \<Longrightarrow> map_from str_of (json_smap m) = Some m"
  unfolding json_smap_def by (rule map_from_map) simp_all

lemma list_back: "list_of (json_list xs) = Some xs"
  by (induction xs) (simp_all add: json_list_def)

definition volume_ok :: "stagedVolume \<Rightarrow> bool" where
  "volume_ok v \<longleftrightarrow> finite (dom (svVolumeContext v)) \<and> finite (dom (svSecrets v))"

lemma volume_back: "volume_ok v \<Longrightarrow> volume_of (json_volume v) = Some v"
  by (cases v) (auto simp: json_volume_def field_def smap_back list_back volume_ok_def)

lemma vols_back:
  "finite (dom m) \<Longrightarrow> (\<And>i v. m i = Some v \<Longrightarrow> volume_ok v) \<Longrightarrow> vols_of (json_vols m) = Some m"
  unfolding vols_of_def json_vols_def by (rule map_from_map) (auto intro: volume_back)

section \<open>A quiet outside\<close>

text \<open>An outside where every call succeeds and does nothing, for the witnesses.\<close>

definition idle_os :: "'o os" where
  "idle_os = \<lparr>os_Statfs = \<lambda>_. State_Monad.return None, os_DetachUnmount = \<lambda>_. State_Monad.return None,
     os_Setxattr = \<lambda>_ _. State_Monad.return None, os_Stat = \<lambda>_. State_Monad.return (Inr (0, 0)),
     os_IsDir = \<lambda>_. State_Monad.return True, os_ReadFile = \<lambda>_. State_Monad.return (Inr ''''),
     os_WriteFile = \<lambda>_ _ _. State_Monad.return None, os_AppendFile = \<lambda>_ _. State_Monad.return None,
     os_OverwriteFile = \<lambda>_ _. State_Monad.return None, os_Rename = \<lambda>_ _. State_Monad.return None,
     os_Remove = \<lambda>_. State_Monad.return None, os_Chtimes = \<lambda>_ _. State_Monad.return None,
     os_MkdirAll = \<lambda>_. State_Monad.return None, os_Readlink = \<lambda>_. State_Monad.return None,
     os_ReadDir = \<lambda>_. State_Monad.return (Some []), os_Getenv = \<lambda>_. State_Monad.return '''',
     os_Run = \<lambda>_ _ _. State_Monad.return ('''', True), os_Sleep = \<lambda>_. State_Monad.return (),
     os_SleepCtx = \<lambda>_ _. State_Monad.return True, os_Now = State_Monad.return 0,
     mu_IsLikelyNotMountPoint = \<lambda>_. State_Monad.return (Inr False),
     mu_CleanupMountPoint = \<lambda>_. State_Monad.return None, mu_Unmount = \<lambda>_. State_Monad.return None,
     ps_Processes = State_Monad.return (Inr []), ps_Signal0 = \<lambda>_. State_Monad.return True,
     ps_Wait = \<lambda>_. State_Monad.return (), sd_Escape = id,
     sd_New = State_Monad.return None, sd_ListUnits = \<lambda>_. State_Monad.return (Inr []),
     sd_StopUnit = \<lambda>_. State_Monad.return None, sd_StopUnitWait = \<lambda>_. State_Monad.return None,
     sd_ResetFailed = \<lambda>_. State_Monad.return (), sd_GetProperties = \<lambda>_. State_Monad.return None,
     sd_StartTransient = \<lambda>_ _ _ _. State_Monad.return None,
     rt_range = \<lambda>ks. State_Monad.return (sorted_list_of_set ks)\<rparr>"

lemma idle_range: "range_doc idle_os"
  by (simp add: range_doc_def idle_os_def)

definition idle_plugin :: "'o plugin" where
  "idle_plugin = \<lparr>pOS = idle_os, pStateFile = ''/csi/state'', pDriver = ''d'', pNodeID = ''n'', pK8s = None,
     pDeps = \<lparr>url_Parse = \<lambda>s. Inr \<lparr>Scheme = ''https'', Hostname = s, Port = ''''\<rparr>,
       AppendCertsFromPEM = \<lambda>_. True, minio_New = \<lambda>_ _. None, unmarshal_BucketInfo = \<lambda>_. Inl (Errorf ''none'')\<rparr>,
     pMarshal = \<lambda>_. '''', pUnmarshal = \<lambda>_. None\<rparr>"

end
