(* ===== verification/Mounter.thy ===== *)
theory Mounter
  imports StateFile GoPaths
begin

text \<open>
  Mounting and unmounting (pkg/mounter/mounter.go): starting a FUSE daemon and waiting until the
  kernel shows its mount, ending one through systemd or umount, and the contract every mounter
  keeps, the locale \<open>mounter_iface\<close>: a mount that reports success is there.
\<close>

definition err_text :: "ioerr \<Rightarrow> err" where
  "err_text e = Errorf (snd e)"

text \<open>\<open>%s\<close> of a list of strings.\<close>

definition show_list :: "string list \<Rightarrow> string" where
  "show_list xs = ''['' @ join '' '' xs @ '']''"

section \<open>Waiting\<close>

definition mountInterval :: nat where "mountInterval = 10"

function waitForMount :: "'o os \<Rightarrow> path \<Rightarrow> nat \<Rightarrow> nat \<Rightarrow> ('o, err option) state" where
  "waitForMount os p timeout elapsed = do {
     r \<leftarrow> mu_IsLikelyNotMountPoint os p;
     case r of
       Inl e \<Rightarrow> State_Monad.return (Some (err_text e))
     | Inr notMount \<Rightarrow>
         if \<not> notMount then State_Monad.return None
         else do {
           os_Sleep os mountInterval;
           if elapsed + mountInterval \<ge> timeout then State_Monad.return (Some (Errorf ''Timeout waiting for mount''))
           else waitForMount os p timeout (elapsed + mountInterval)
         }
   }"
  by pat_completeness auto
termination by (relation "measure (\<lambda>(os, p, timeout, elapsed). timeout - elapsed)") (auto simp: mountInterval_def)

declare waitForMount.simps [simp del]

definition cmdLineFile :: "nat \<Rightarrow> path" where
  "cmdLineFile pid = ''/proc/'' @ show_nat pid @ ''/cmdline''"

definition getCmdLine :: "'o os \<Rightarrow> nat \<Rightarrow> ('o, ioerr + string) state" where
  "getCmdLine os pid = os_ReadFile os (cmdLineFile pid)"

fun find_process :: "'o os \<Rightarrow> path \<Rightarrow> nat list \<Rightarrow> ('o, nat option) state" where
  "find_process os p [] = State_Monad.return None"
| "find_process os p (pid # pids) = do {
     r \<leftarrow> getCmdLine os pid;
     case r of
       Inl e \<Rightarrow> find_process os p pids
     | Inr cmdLine \<Rightarrow> if sublist p cmdLine then State_Monad.return (Some pid) else find_process os p pids
   }"

definition FindFuseMountProcess :: "'o os \<Rightarrow> path \<Rightarrow> ('o, err + nat option) state" where
  "FindFuseMountProcess os p = do {
     r \<leftarrow> ps_Processes os;
     case r of
       Inl e \<Rightarrow> State_Monad.return (Inl e)
     | Inr pids \<Rightarrow> do { x \<leftarrow> find_process os p pids; State_Monad.return (Inr x) }
   }"

text \<open>
  The wait after the \<open>b\<close>-th look: \<open>1.5\<close> to the \<open>b\<close> times 100 milliseconds, cut to a whole one. (Both
  factors are exact in a float64 for the limit of 20 the code uses.)
\<close>

definition backoff_ms :: "nat \<Rightarrow> nat" where
  "backoff_ms b = 3 ^ b * 100 div 2 ^ b"

fun waitForProcess :: "'o os \<Rightarrow> nat \<Rightarrow> nat \<Rightarrow> nat \<Rightarrow> ('o, err option) state" where
  "waitForProcess os pid b 0 = State_Monad.return (Some (Errorf (''Timeout waiting for PID '' @ show_nat pid @ '' to end'')))"
| "waitForProcess os pid b (Suc n) = do {
     r \<leftarrow> getCmdLine os pid;
     case r of
       Inl e \<Rightarrow> do { ps_Wait os pid; State_Monad.return None }
     | Inr cmdLine \<Rightarrow>
         if cmdLine = '''' then do { ps_Wait os pid; State_Monad.return None }
         else do {
           alive \<leftarrow> ps_Signal0 os pid;
           if \<not> alive then do { ps_Wait os pid; State_Monad.return None }
           else do { os_Sleep os (backoff_ms b); waitForProcess os pid (Suc b) n }
         }
   }"

section \<open>Mounting\<close>

definition fuseMount :: "'o os \<Rightarrow> path \<Rightarrow> string \<Rightarrow> string list \<Rightarrow> string list \<Rightarrow> ('o, err option) state" where
  "fuseMount os p command args envs = do {
     (out, ok) \<leftarrow> os_Run os command args envs;
     if \<not> ok then State_Monad.return (Some (Errorf (''Error fuseMount command: '' @ command @ [CHR 0x0A] @ ''args: ''
        @ show_list args @ [CHR 0x0A] @ ''output: '' @ out)))
     else waitForMount os p 10000 0
   }"

definition systemCABundle :: path where
  "systemCABundle = ''/etc/ssl/certs/ca-certificates.crt''"

definition TrustCABundle :: "'o os \<Rightarrow> string \<Rightarrow> ('o, err option) state" where
  "TrustCABundle os pem = do {
     r \<leftarrow> os_ReadFile os systemCABundle;
     case r of
       Inl e \<Rightarrow>
         if fst e \<noteq> ENOENT then State_Monad.return (Some (err_text e))
         else if sublist pem '''' then State_Monad.return None
         else do {
           a \<leftarrow> os_AppendFile os systemCABundle ([CHR 0x0A] @ pem @ [CHR 0x0A]);
           State_Monad.return (map_option err_text a) }
     | Inr existing \<Rightarrow>
         if sublist pem existing then State_Monad.return None
         else do {
           a \<leftarrow> os_AppendFile os systemCABundle ([CHR 0x0A] @ pem @ [CHR 0x0A]);
           State_Monad.return (map_option err_text a) }
   }"

section \<open>Unmounting\<close>

definition Unmount :: "'o os \<Rightarrow> path \<Rightarrow> ('o, err option) state" where
  "Unmount os p = mu_CleanupMountPoint os p"

definition unitName :: "'o os \<Rightarrow> string \<Rightarrow> string" where
  "unitName os volumeID = ''geesefs-'' @ sd_Escape os volumeID @ ''.service''"

definition SystemdUnmount :: "'o os \<Rightarrow> string \<Rightarrow> ('o, bool \<times> err option) state" where
  "SystemdUnmount os volumeID = do {
     c \<leftarrow> sd_New os;
     case c of
       Some e \<Rightarrow> State_Monad.return (False, Some e)
     | None \<Rightarrow> do {
         units \<leftarrow> sd_ListUnits os (unitName os volumeID);
         case units of
           Inl e \<Rightarrow> State_Monad.return (False, Some e)
         | Inr us \<Rightarrow>
             if us = [] \<or> hd us = ''inactive'' \<or> hd us = ''failed'' then State_Monad.return (True, None)
             else do {
               r \<leftarrow> sd_StopUnitWait os (unitName os volumeID);
               State_Monad.return (case r of Some e \<Rightarrow> (False, Some e) | None \<Rightarrow> (True, None))
             }
       }
   }"

definition FuseUnmount :: "'o os \<Rightarrow> path \<Rightarrow> ('o, err option) state" where
  "FuseUnmount os p = do {
     e \<leftarrow> mu_Unmount os p;
     if e \<noteq> None then State_Monad.return e
     else do {
       r \<leftarrow> FindFuseMountProcess os p;
       case r of
         Inl e' \<Rightarrow> State_Monad.return None
       | Inr None \<Rightarrow> State_Monad.return None
       | Inr (Some pid) \<Rightarrow> waitForProcess os pid 0 20
     }
   }"

definition createLoopDevice :: "'o os \<Rightarrow> path \<Rightarrow> ('o, err option) state" where
  "createLoopDevice os device = do {
     st \<leftarrow> os_Stat os device;
     case st of
       Inl (ENOENT, _) \<Rightarrow> do {
         (out, ok) \<leftarrow> os_Run os ''mknod'' [device, ''b'', ''7'', ''0''] [];
         State_Monad.return (if ok then None else Some (Errorf (''Error configuring loop device: '' @ out)))
       }
     | _ \<Rightarrow> State_Monad.return None
   }"

section \<open>A mount that reports success is there\<close>

text \<open>
  \<open>mounted\<close> reads the kernel's mount table off the outside. What is used of k8s-mount-utils: asking
  whether a path is a mount point answers from that table and does not change it.
\<close>

definition mount_doc :: "'o os \<Rightarrow> ('o \<Rightarrow> path \<Rightarrow> bool) \<Rightarrow> bool" where
  "mount_doc os mounted \<longleftrightarrow> (\<forall>p s. mounted (exec (mu_IsLikelyNotMountPoint os p) s) = mounted s \<and>
     (\<forall>b. val_of (mu_IsLikelyNotMountPoint os p) s = Inr b \<longrightarrow> b = (\<not> mounted s p)))"

lemma mount_doc_ask:
  "mount_doc os mounted \<Longrightarrow> mounted (exec (mu_IsLikelyNotMountPoint os p) s) = mounted s"
  "mount_doc os mounted \<Longrightarrow> val_of (mu_IsLikelyNotMountPoint os p) s = Inr b \<Longrightarrow> b = (\<not> mounted s p)"
  by (auto simp: mount_doc_def)

text \<open>One round of waiting, as it is seen from outside.\<close>

lemma waitForMount_round:
  "val_of (waitForMount os p timeout elapsed) s = (case val_of (mu_IsLikelyNotMountPoint os p) s of
     Inl e \<Rightarrow> Some (err_text e)
   | Inr b \<Rightarrow> if \<not> b then None
       else if elapsed + mountInterval \<ge> timeout then Some (Errorf ''Timeout waiting for mount'')
       else val_of (waitForMount os p timeout (elapsed + mountInterval))
         (exec (os_Sleep os mountInterval) (exec (mu_IsLikelyNotMountPoint os p) s)))"
  "exec (waitForMount os p timeout elapsed) s = (case val_of (mu_IsLikelyNotMountPoint os p) s of
     Inl e \<Rightarrow> exec (mu_IsLikelyNotMountPoint os p) s
   | Inr b \<Rightarrow> if \<not> b then exec (mu_IsLikelyNotMountPoint os p) s
       else if elapsed + mountInterval \<ge> timeout
       then exec (os_Sleep os mountInterval) (exec (mu_IsLikelyNotMountPoint os p) s)
       else exec (waitForMount os p timeout (elapsed + mountInterval))
         (exec (os_Sleep os mountInterval) (exec (mu_IsLikelyNotMountPoint os p) s)))"
  by (subst waitForMount.simps, simp split: sum.split)+

lemma waitForMount_there:
  assumes "mount_doc os mounted"
  shows "val_of (waitForMount os p timeout elapsed) s = None \<Longrightarrow>
    mounted (exec (waitForMount os p timeout elapsed) s) p"
proof (induction "timeout - elapsed" arbitrary: elapsed s rule: less_induct)
  case less
  let ?s = "exec (mu_IsLikelyNotMountPoint os p) s"
  show ?case
  proof (cases "val_of (mu_IsLikelyNotMountPoint os p) s")
    case (Inl e)
    with less.prems show ?thesis by (simp add: waitForMount_round(1)[of os p timeout elapsed])
  next
    case (Inr b)
    show ?thesis
    proof (cases b)
      case False
      with Inr mount_doc_ask(1)[OF assms] mount_doc_ask(2)[OF assms Inr] show ?thesis
        by (simp add: waitForMount_round(2)[of os p timeout elapsed])
    next
      case True
      have go: "\<not> timeout \<le> elapsed + mountInterval"
        and val: "val_of (waitForMount os p timeout (elapsed + mountInterval)) (exec (os_Sleep os mountInterval) ?s) = None"
        using less.prems Inr True by (simp_all add: waitForMount_round(1)[of os p timeout elapsed] split: if_splits)
      have "timeout - (elapsed + mountInterval) < timeout - elapsed" using go by (simp add: mountInterval_def)
      from less.hyps[OF this val] show ?thesis
        using Inr True go by (simp add: waitForMount_round(2)[of os p timeout elapsed])
    qed
  qed
qed

text \<open>It asks a bounded number of times: \<open>asks\<close> counts the questions put to the kernel so far.\<close>

definition asks_doc :: "'o os \<Rightarrow> ('o \<Rightarrow> nat) \<Rightarrow> bool" where
  "asks_doc os asks \<longleftrightarrow> (\<forall>p s. asks (exec (mu_IsLikelyNotMountPoint os p) s) = Suc (asks s)) \<and>
     (\<forall>d s. asks (exec (os_Sleep os d) s) = asks s)"

lemma waitForMount_asks:
  assumes "asks_doc os asks"
  shows "asks (exec (waitForMount os p timeout elapsed) s) \<le> asks s + Suc ((timeout - Suc elapsed) div mountInterval)"
proof (induction "timeout - elapsed" arbitrary: elapsed s rule: less_induct)
  case less
  let ?s = "exec (os_Sleep os mountInterval) (exec (mu_IsLikelyNotMountPoint os p) s)"
  have one: "asks (exec (mu_IsLikelyNotMountPoint os p) s) = Suc (asks s)" "asks ?s = Suc (asks s)"
    using assms by (simp_all add: asks_doc_def)
  show ?case
  proof (cases "val_of (mu_IsLikelyNotMountPoint os p) s = Inr True \<and> elapsed + mountInterval < timeout")
    case True
    have eq: "exec (waitForMount os p timeout elapsed) s = exec (waitForMount os p timeout (elapsed + mountInterval)) ?s"
      using True by (simp add: waitForMount_round(2)[of os p timeout elapsed])
    have "(timeout - Suc elapsed) div mountInterval = Suc ((timeout - Suc (elapsed + mountInterval)) div mountInterval)"
      using True by (subst le_div_geq) (auto simp: mountInterval_def)
    moreover have "timeout - (elapsed + mountInterval) < timeout - elapsed" using True by (auto simp: mountInterval_def)
    note less.hyps[OF this, of ?s]
    ultimately show ?thesis unfolding eq using one(2) by simp
  next
    case False
    then have "exec (waitForMount os p timeout elapsed) s \<in> {exec (mu_IsLikelyNotMountPoint os p) s, ?s}"
      by (auto simp: waitForMount_round(2)[of os p timeout elapsed] split: sum.split)
    with one show ?thesis by auto
  qed
qed

lemma fuseMount_there:
  assumes "mount_doc os mounted" "val_of (fuseMount os p command args envs) s = None"
  shows "mounted (exec (fuseMount os p command args envs) s) p"
  using assms waitForMount_there[OF assms(1)]
  by (auto simp: fuseMount_def split: prod.splits if_splits)

text \<open>
  The interface \<open>Mounter\<close>: \<open>Mount(target, volumeID)\<close> of a mounter of kind \<open>'m\<close>. Success means the
  target is a mount point; and where that holds, what a caller does next may rely on it.
\<close>

locale mounter_iface =
  fixes mount_op :: "'m \<Rightarrow> 'o os \<Rightarrow> path \<Rightarrow> string \<Rightarrow> ('o, err option) state"
  assumes mount_there: "mount_doc os mounted \<Longrightarrow> val_of (mount_op m os target vid) s = None \<Longrightarrow>
    mounted (exec (mount_op m os target vid) s) target"
begin

lemma asked_after: "mount_doc os mounted \<Longrightarrow> val_of (mount_op m os target vid) s = None \<Longrightarrow>
    val_of (mu_IsLikelyNotMountPoint os target) (exec (mount_op m os target vid) s) \<noteq> Inr True"
  using mount_doc_ask(2)[of os mounted target "exec (mount_op m os target vid) s" True] mount_there by blast

end

section \<open>The trust store\<close>

text \<open>Reading and appending to files, over a view of the outside as a map from paths to contents.\<close>

definition file_doc :: "'o os \<Rightarrow> ('o \<Rightarrow> path \<Rightarrow> string option) \<Rightarrow> bool" where
  "file_doc os file \<longleftrightarrow>
     (\<forall>p s. file (exec (os_ReadFile os p) s) = file s \<and>
        (case val_of (os_ReadFile os p) s of
           Inr b \<Rightarrow> file s p = Some b | Inl e \<Rightarrow> fst e = ENOENT \<longrightarrow> file s p = None)) \<and>
     (\<forall>p t s. val_of (os_AppendFile os p t) s = None \<longrightarrow>
        file (exec (os_AppendFile os p t) s) =
          (file s)(p \<mapsto> (case file s p of None \<Rightarrow> '''' | Some b \<Rightarrow> b) @ t)) \<and>
     (\<forall>p t s. val_of (os_OverwriteFile os p t) s = None \<longrightarrow>
        file (exec (os_OverwriteFile os p t) s) =
          (file s)(p \<mapsto> t @ drop (length t) (case file s p of None \<Rightarrow> '''' | Some b \<Rightarrow> b)))"

lemma file_doc_read:
  assumes "file_doc os file"
  shows "file (exec (os_ReadFile os p) s) = file s"
    and "val_of (os_ReadFile os p) s = Inr b \<Longrightarrow> file s p = Some b"
    and "val_of (os_ReadFile os p) s = Inl e \<Longrightarrow> fst e = ENOENT \<Longrightarrow> file s p = None"
proof -
  have doc: "file (exec (os_ReadFile os p) s) = file s \<and> (case val_of (os_ReadFile os p) s of
      Inr b \<Rightarrow> file s p = Some b | Inl e \<Rightarrow> fst e = ENOENT \<longrightarrow> file s p = None)"
    using assms unfolding file_doc_def by blast
  then show "file (exec (os_ReadFile os p) s) = file s" by blast
  show "val_of (os_ReadFile os p) s = Inr b \<Longrightarrow> file s p = Some b" using doc by simp
  show "val_of (os_ReadFile os p) s = Inl e \<Longrightarrow> fst e = ENOENT \<Longrightarrow> file s p = None" using doc by simp
qed

lemma file_doc_append:
  "file_doc os file \<Longrightarrow> val_of (os_AppendFile os p t) s = None \<Longrightarrow> file (exec (os_AppendFile os p t) s) =
    (file s)(p \<mapsto> (case file s p of None \<Rightarrow> '''' | Some b \<Rightarrow> b) @ t)"
  by (simp add: file_doc_def)

lemma trust_append:
  assumes "file_doc os file" "val_of (TrustCABundle os pem) s = None"
  shows "file (exec (TrustCABundle os pem) s) = file s \<and> (\<exists>b. file s systemCABundle = Some b \<and> sublist pem b) \<or>
    pem = '''' \<and> file (exec (TrustCABundle os pem) s) = file s \<or>
    file (exec (TrustCABundle os pem) s) = (file s)(systemCABundle \<mapsto>
      (case file s systemCABundle of None \<Rightarrow> '''' | Some b \<Rightarrow> b) @ [CHR 0x0A] @ pem @ [CHR 0x0A])"
proof (cases "val_of (os_ReadFile os systemCABundle) s")
  case (Inl e)
  show ?thesis
  proof (cases "fst e = ENOENT \<and> pem \<noteq> ''''")
    case True
    with assms(2) Inl have "val_of (os_AppendFile os systemCABundle ([CHR 0x0A] @ pem @ [CHR 0x0A]))
        (exec (os_ReadFile os systemCABundle) s) = None" by (simp add: TrustCABundle_def)
    from file_doc_append[OF assms(1) this] True Inl show ?thesis
      by (simp add: TrustCABundle_def file_doc_read(1)[OF assms(1)])
  next
    case False
    with assms Inl show ?thesis by (auto simp: TrustCABundle_def file_doc_read(1)[OF assms(1)] split: if_splits)
  qed
next
  case (Inr b)
  show ?thesis
  proof (cases "sublist pem b")
    case True
    with Inr file_doc_read[OF assms(1)] show ?thesis by (auto simp: TrustCABundle_def)
  next
    case False
    with assms(2) Inr have "val_of (os_AppendFile os systemCABundle ([CHR 0x0A] @ pem @ [CHR 0x0A]))
        (exec (os_ReadFile os systemCABundle) s) = None" by (simp add: TrustCABundle_def)
    from file_doc_append[OF assms(1) this] False Inr show ?thesis
      by (simp add: TrustCABundle_def file_doc_read(1)[OF assms(1)])
  qed
qed

section \<open>Properties\<close>

text \<open>Trusting a bundle never loses a trusted one and happens once: after a success the trust store
  holds the bundle, all it held before is still there, no other file changed, and trusting it
  again changes nothing.\<close>

theorem trust_once:
  assumes "file_doc os file" "val_of (TrustCABundle os pem) s = None" "pem \<noteq> ''''"
    and "s' = exec (TrustCABundle os pem) s"
  shows "(\<exists>b. file s' systemCABundle = Some b \<and> sublist pem b \<and>
      (\<forall>old. file s systemCABundle = Some old \<longrightarrow> prefix old b)) \<and>
    (\<forall>q. q \<noteq> systemCABundle \<longrightarrow> file s' q = file s q) \<and>
    (val_of (os_ReadFile os systemCABundle) s' = Inr b' \<longrightarrow> file (exec (TrustCABundle os pem) s') = file s')"
proof -
  let ?old = "case file s systemCABundle of None \<Rightarrow> '''' | Some b \<Rightarrow> b"
  have "\<exists>b. file s' systemCABundle = Some b \<and> sublist pem b \<and> (\<forall>old. file s systemCABundle = Some old \<longrightarrow> prefix old b)"
    and other: "\<forall>q. q \<noteq> systemCABundle \<longrightarrow> file s' q = file s q"
    using trust_append[OF assms(1,2)] assms(3,4) sublist_appendI[of pem "?old @ [CHR 0x0A]" "[CHR 0x0A]"] by auto
  then obtain b where b: "file s' systemCABundle = Some b" "sublist pem b"
    "\<forall>old. file s systemCABundle = Some old \<longrightarrow> prefix old b" by blast
  moreover have "file (exec (TrustCABundle os pem) s') = file s'" if "val_of (os_ReadFile os systemCABundle) s' = Inr b'"
    using that file_doc_read(2)[OF assms(1) that] b(1,2) by (simp add: TrustCABundle_def file_doc_read(1)[OF assms(1)])
  ultimately show ?thesis using other by blast
qed

text \<open>An outside that is a file system in memory.\<close>

definition file_os :: "(path \<Rightarrow> string option) os" where
  "file_os = idle_os\<lparr>
     os_ReadFile := \<lambda>p. State (\<lambda>s. (case s p of None \<Rightarrow> Inl (ENOENT, ''no such file'') | Some b \<Rightarrow> Inr b, s)),
     os_AppendFile := \<lambda>p t. State (\<lambda>s. (None, s(p \<mapsto> (case s p of None \<Rightarrow> '''' | Some b \<Rightarrow> b) @ t))),
     os_OverwriteFile := \<lambda>p t. State (\<lambda>s. (None, s(p \<mapsto> t @ drop (length t) (case s p of None \<Rightarrow> '''' | Some b \<Rightarrow> b))))\<rparr>"

lemma file_os_doc: "file_doc file_os (\<lambda>s. s)"
  by (simp add: file_doc_def file_os_def split: option.split)

theorem trust_once_witness:
  "\<exists>b. exec (TrustCABundle file_os ''PEM'') [systemCABundle \<mapsto> ''roots''] systemCABundle = Some b \<and>
     sublist ''PEM'' b \<and> prefix ''roots'' b"
proof -
  have ok: "val_of (TrustCABundle file_os ''PEM'') [systemCABundle \<mapsto> ''roots''] = None"
    by (simp add: TrustCABundle_def file_os_def)
  from trust_once[OF file_os_doc ok _ refl] show ?thesis by simp
qed

text \<open>Waiting for a mount never lasts: within its ten seconds it asks the kernel at most a thousand
  times, and when it reports success the path is a mount point.\<close>

theorem wait_for_mount_bounded:
  assumes "asks_doc os asks" "mount_doc os mounted"
  shows "asks (exec (waitForMount os p 10000 0) s) \<le> asks s + 1000 \<and>
    (val_of (waitForMount os p 10000 0) s = None \<longrightarrow> mounted (exec (waitForMount os p 10000 0) s) p)"
  using waitForMount_asks[OF assms(1), of p 10000 0 s] waitForMount_there[OF assms(2)]
  by (simp add: mountInterval_def)

theorem wait_for_mount_bounded_witness:
  "exec (waitForMount (idle_os\<lparr>mu_IsLikelyNotMountPoint := \<lambda>p. State (\<lambda>s. (Inr True, Suc s))\<rparr>) ''/t'' 10000 0) 0 \<le> 1000"
proof -
  let ?os = "idle_os\<lparr>mu_IsLikelyNotMountPoint := \<lambda>p. State (\<lambda>s. (Inr True, Suc s))\<rparr> :: nat os"
  have "asks_doc ?os (\<lambda>s. s)" "mount_doc ?os (\<lambda>s p. False)"
    by (simp_all add: asks_doc_def mount_doc_def) (simp add: idle_os_def)
  from wait_for_mount_bounded[OF this, of "''/t''" 0] show ?thesis by simp
qed

text \<open>SystemdUnmount never reports an error together with a unit that exists: it answers True
  exactly when the unit is absent, inactive or failed, or was stopped, and then without an error.
  So the branch of NodeUnstageVolume for \<open>exists && err != nil\<close> is never taken.\<close>

theorem systemd_unmount_answers:
  "(fst (val_of (SystemdUnmount os vid) s) \<longleftrightarrow> snd (val_of (SystemdUnmount os vid) s) = None) \<and>
   (fst (val_of (SystemdUnmount os vid) s) \<longleftrightarrow>
      (let s1 = exec (sd_New os) s; s2 = exec (sd_ListUnits os (unitName os vid)) s1
       in val_of (sd_New os) s = None \<and>
          (case val_of (sd_ListUnits os (unitName os vid)) s1 of Inl e \<Rightarrow> False
           | Inr us \<Rightarrow> us = [] \<or> hd us \<in> {''inactive'', ''failed''} \<or>
               val_of (sd_StopUnitWait os (unitName os vid)) s2 = None)))"
  by (auto simp: SystemdUnmount_def Let_def split: option.splits sum.splits)

end
