(* ===== verification/Sha256.thy ===== *)
theory Sha256
  imports Sha1
begin

text \<open>
  \<open>crypto/sha256\<close> of Go's standard library, as \<open>writeCABundle\<close> uses it to name a bundle's file:
  the digest of a byte string (FIPS 180-4), padded as SHA-1 pads.
\<close>

type_synonym sha2_state = "u32 list"

definition rotr :: "nat \<Rightarrow> u32 \<Rightarrow> u32" where
  "rotr n x = drop_bit n x OR push_bit (32 - n) x"

definition sha2_init :: sha2_state where
  "sha2_init = [0x6a09e667, 0xbb67ae85, 0x3c6ef372, 0xa54ff53a, 0x510e527f, 0x9b05688c, 0x1f83d9ab, 0x5be0cd19]"

text \<open>The first 32 bits of the fractional parts of the cube roots of the first 64 primes.\<close>

definition sha2_k :: "u32 list" where
  "sha2_k =
    [1116352408, 1899447441, 3049323471, 3921009573, 961987163, 1508970993,
     2453635748, 2870763221, 3624381080, 310598401, 607225278, 1426881987,
     1925078388, 2162078206, 2614888103, 3248222580, 3835390401, 4022224774,
     264347078, 604807628, 770255983, 1249150122, 1555081692, 1996064986,
     2554220882, 2821834349, 2952996808, 3210313671, 3336571891, 3584528711,
     113926993, 338241895, 666307205, 773529912, 1294757372, 1396182291,
     1695183700, 1986661051, 2177026350, 2456956037, 2730485921, 2820302411,
     3259730800, 3345764771, 3516065817, 3600352804, 4094571909, 275423344,
     430227734, 506948616, 659060556, 883997877, 958139571, 1322822218,
     1537002063, 1747873779, 1955562222, 2024104815, 2227730452, 2361852424,
     2428436474, 2756734187, 3204031479, 3329325298]"

text \<open>The schedule, latest word first; a round on the eight registers.\<close>

fun sha2_schedule :: "nat \<Rightarrow> u32 list \<Rightarrow> u32 list" where
  "sha2_schedule 0 r = r"
| "sha2_schedule (Suc n) r =
     (let s0 = (let x = r ! 14 in rotr 7 x XOR rotr 18 x XOR drop_bit 3 x);
          s1 = (let x = r ! 1 in rotr 17 x XOR rotr 19 x XOR drop_bit 10 x)
      in sha2_schedule n ((r ! 15 + s0 + r ! 6 + s1) # r))"

fun sha2_rounds :: "(u32 \<times> u32) list \<Rightarrow> sha2_state \<Rightarrow> sha2_state" where
  "sha2_rounds ((k, w) # kws) [a, b, c, d, e, f, g, h] =
     (let s1 = rotr 6 e XOR rotr 11 e XOR rotr 25 e;
          ch = (e AND f) XOR (NOT e AND g);
          t1 = h + s1 + ch + k + w;
          s0 = rotr 2 a XOR rotr 13 a XOR rotr 22 a;
          maj = (a AND b) XOR (a AND c) XOR (b AND c)
      in sha2_rounds kws [t1 + (s0 + maj), a, b, c, d + t1, e, f, g])"
| "sha2_rounds _ s = s"

definition sha2_block :: "u32 list \<Rightarrow> sha2_state \<Rightarrow> sha2_state" where
  "sha2_block ws s = map2 (+) s (sha2_rounds (zip sha2_k (rev (sha2_schedule 48 (rev ws)))) s)"

function sha2_blocks :: "u32 list \<Rightarrow> sha2_state \<Rightarrow> sha2_state" where
  "sha2_blocks ws s = (if length ws < 16 then s else sha2_blocks (drop 16 ws) (sha2_block (take 16 ws) s))"
  by pat_completeness auto
termination by (relation "measure (\<lambda>(ws, s). length ws)") auto

declare sha2_blocks.simps [simp del]

definition sha256_digest :: "string \<Rightarrow> byte list" where
  "sha256_digest s = concat (map bytes32 (sha2_blocks (words_be (sha1_pad s)) sha2_init))"

end
