(* ===== verification/Geesefs.thy ===== *)
theory Geesefs
  imports Mounter S3Client Sha256
begin

text \<open>
  The three mounters (pkg/mounter/geesefs.go, s3fs.go, rclone.go) and their choice (New of
  mounter.go): what each runs on the host or in the container, with the filter that keeps
  options reaching the host's files away from a mounter run by the host's systemd. Each of them
  keeps the contract \<open>mounter_iface\<close>.
\<close>

section \<open>GeeseFS\<close>

record geesefsMounter =
  gMeta :: FSMeta
  gEndpoint :: string
  gRegion :: string
  gAccessKeyID :: string
  gSecretAccessKey :: string
  gCaBundle :: string
  gCaBundleCtr :: path
  gCaBundleHost :: path

definition newGeeseFSMounter :: "FSMeta \<Rightarrow> Config \<Rightarrow> geesefsMounter" where
  "newGeeseFSMounter meta cfg = \<lparr>gMeta = meta, gEndpoint = Endpoint cfg, gRegion = Region cfg,
     gAccessKeyID = AccessKeyID cfg, gSecretAccessKey = SecretAccessKey cfg, gCaBundle = CABundle cfg,
     gCaBundleCtr = '''', gCaBundleHost = ''''\<rparr>"

definition pluginDir :: "'o os \<Rightarrow> ('o, path) state" where
  "pluginDir os = do {
     d \<leftarrow> os_Getenv os ''PLUGIN_DIR'';
     State_Monad.return (if d = '''' then ''/var/lib/kubelet/plugins/csi.lazedo.dev'' else d)
   }"

definition bundleName :: "string \<Rightarrow> string" where
  "bundleName pem = ''ca-bundle-'' @ hex_encode (take 4 (sha256_digest pem)) @ ''.pem''"

definition writeCABundle :: "'o os \<Rightarrow> geesefsMounter \<Rightarrow> ('o, geesefsMounter \<times> err option) state" where
  "writeCABundle os g =
     (if gCaBundle g = '''' then State_Monad.return (g, None)
      else do {
        dir \<leftarrow> pluginDir os;
        let g' = g\<lparr>gCaBundleCtr := ''/csi/'' @ bundleName (gCaBundle g),
          gCaBundleHost := dir @ ''/'' @ bundleName (gCaBundle g)\<rparr>;
        e \<leftarrow> os_WriteFile os (gCaBundleCtr g') (gCaBundle g) 420;
        case e of
          Some er \<Rightarrow> State_Monad.return (g', Some (err_text er))
        | None \<Rightarrow> do { t \<leftarrow> TrustCABundle os (gCaBundle g); State_Monad.return (g', t) }
      })"

text \<open>CopyBinary: the copy itself, once the old file is out of the way.\<close>

definition copyFile :: "'o os \<Rightarrow> path \<Rightarrow> path \<Rightarrow> int \<Rightarrow> ('o, err option) state" where
  "copyFile os src dst mtime = do {
     bin \<leftarrow> os_ReadFile os src;
     case bin of
       Inl e \<Rightarrow> State_Monad.return (Some (Errorf (''Error copying '' @ src @ '' to '' @ dst @ '': '' @ snd e)))
     | Inr b \<Rightarrow> do {
         w \<leftarrow> os_WriteFile os dst b 493;
         case w of
           Some e \<Rightarrow> State_Monad.return (Some (Errorf (''Error copying '' @ src @ '' to '' @ dst @ '': '' @ snd e)))
         | None \<Rightarrow> do {
             t \<leftarrow> os_Chtimes os dst mtime;
             State_Monad.return (map_option
               (\<lambda>e. Errorf (''Error copying '' @ src @ '' to '' @ dst @ '': '' @ snd e)) t)
           }
       }
   }"

definition CopyBinary :: "'o os \<Rightarrow> path \<Rightarrow> path \<Rightarrow> ('o, err option) state" where
  "CopyBinary os src dst = do {
     st \<leftarrow> os_Stat os src;
     case st of
       Inl e \<Rightarrow> State_Monad.return (Some (Errorf (''Failed to stat '' @ src @ '': '' @ snd e)))
     | Inr (len, mtime) \<Rightarrow> do {
         st2 \<leftarrow> os_Stat os dst;
         case st2 of
           Inl e \<Rightarrow>
             if fst e \<noteq> ENOENT
             then State_Monad.return (Some (Errorf (''Failed to stat '' @ dst @ '': '' @ snd e)))
             else copyFile os src dst mtime
         | Inr (len2, mtime2) \<Rightarrow>
             if len2 \<noteq> len \<or> mtime2 \<noteq> mtime then do {
               r \<leftarrow> os_Remove os dst;
               case r of
                 Some e \<Rightarrow> State_Monad.return (Some (Errorf (''Error removing '' @ dst @ '' to update it: '' @ snd e)))
               | None \<Rightarrow> copyFile os src dst mtime
             }
             else State_Monad.return None
       }
   }"

definition credentials :: "geesefsMounter \<Rightarrow> string list" where
  "credentials g = [''AWS_ACCESS_KEY_ID='' @ gAccessKeyID g, ''AWS_SECRET_ACCESS_KEY='' @ gSecretAccessKey g]"

definition MountDirect :: "'o os \<Rightarrow> geesefsMounter \<Rightarrow> path \<Rightarrow> string list \<Rightarrow> ('o, err option) state" where
  "MountDirect os g target args =
     (let args' = [''--endpoint'', gEndpoint g, ''-o'', ''allow_other'', ''--log-file'', ''/dev/stderr''] @ args;
          envs = credentials g @ (if gCaBundleCtr g \<noteq> '''' then [''AWS_CA_BUNDLE='' @ gCaBundleCtr g] else [])
      in fuseMount os target ''geesefs'' args' envs)"

definition unitEnvironment :: "geesefsMounter \<Rightarrow> string list" where
  "unitEnvironment g =
     credentials g @ (if gCaBundleHost g \<noteq> '''' then [''AWS_CA_BUNDLE='' @ gCaBundleHost g] else [])"

subsection \<open>Options\<close>

text \<open>The name of an option that begins with a dash: after one or two dashes, up to an equals sign.\<close>

definition option_key :: "string \<Rightarrow> string" where
  "option_key opt =
     (let s = (if length opt > 1 \<and> opt ! 1 = CHR ''-'' then 2 else 1)
      in takeWhile (\<lambda>c. c \<noteq> CHR ''='') (drop s opt))"

definition unsafe_key :: "string \<Rightarrow> bool" where
  "unsafe_key k \<longleftrightarrow> k \<in> {''log-file'', ''shared-config'', ''cache''}"

record options =
  oArgs :: "string list"
  oUnsafe :: "string list"
  oSystemd :: bool

text \<open>The loop over the mount options; an unsafe one takes the next with it.\<close>

fun filter_options :: "options \<Rightarrow> string list \<Rightarrow> options" where
  "filter_options st [] = st"
| "filter_options st (opt # rest) =
     (if opt = ''--no-systemd'' then filter_options (st\<lparr>oSystemd := False\<rparr>) rest
      else if length opt > 0 \<and> opt ! 0 = CHR ''-'' then
        (let key = option_key opt in
         if unsafe_key key then
           (case rest of
              [] \<Rightarrow> st\<lparr>oUnsafe := oUnsafe st @ [opt]\<rparr>
            | v # rest' \<Rightarrow> filter_options (st\<lparr>oUnsafe := oUnsafe st @ [opt, v]\<rparr>) rest')
         else if key \<noteq> '''' then filter_options (st\<lparr>oArgs := oArgs st @ [opt]\<rparr>) rest
         else filter_options st rest)
      else if length opt > 0 then filter_options (st\<lparr>oArgs := oArgs st @ [opt]\<rparr>) rest
      else filter_options st rest)"

definition base_args :: "geesefsMounter \<Rightarrow> string list" where
  "base_args g = (if gRegion g \<noteq> '''' then [''--region'', gRegion g] else [])
     @ [''--setuid'', ''65534'', ''--setgid'', ''65534'']"

definition geesefs_options :: "geesefsMounter \<Rightarrow> options" where
  "geesefs_options g =
     filter_options \<lparr>oArgs = base_args g, oUnsafe = [], oSystemd = True\<rparr> (MountOptions (gMeta g))"

definition geesefs_args :: "geesefsMounter \<Rightarrow> path \<Rightarrow> string list" where
  "geesefs_args g target =
     (let st = geesefs_options g in
      oArgs st @ (if oSystemd st then [] else oUnsafe st)
      @ [BucketName (gMeta g) @ '':'' @ Prefix (gMeta g), target])"

section \<open>Mounting with GeeseFS\<close>

definition active_state :: "string \<Rightarrow> bool" where
  "active_state s \<longleftrightarrow> s \<in> {''active'', ''activating'', ''reloading''}"

text \<open>Where the unit that runs already mounts: the last argument it was started with.\<close>

definition current_path :: "unitInfo \<Rightarrow> path" where
  "current_path u = (case ExecArgs u of
     None \<Rightarrow> '''' | Some args \<Rightarrow> if length args \<ge> 2 then last args else '''')"

text \<open>Starting the unit, after what is left of an old one was stopped.\<close>

definition startUnit ::
  "'o os \<Rightarrow> geesefsMounter \<Rightarrow> path \<Rightarrow> string \<Rightarrow> string list \<Rightarrow> ('o, err option) state" where
  "startUnit os g target volumeID args =
     (let unit' = unitName os volumeID; unitPath = ''/run/systemd/system/'' @ unit' @ ''.d'' in do {
        e \<leftarrow> os_MkdirAll os unitPath;
        case e of
          Some er \<Rightarrow> State_Monad.return (Some (Errorf (''Error creating directory '' @ unitPath @ '': '' @ snd er)))
        | None \<Rightarrow> do {
            e \<leftarrow> os_WriteFile os (unitPath @ ''/50-StopProps.conf'')
              (''[Service]'' @ [CHR 0x0A] @ ''ExecStopPost=/bin/umount -f -l '' @ target @ [CHR 0x0A]
                @ ''TimeoutStopSec=20'' @ [CHR 0x0A]) 384;
            case e of
              Some er \<Rightarrow> State_Monad.return
                (Some (Errorf (''Error writing '' @ unitPath @ ''/50-ExecStopPost.conf: '' @ snd er)))
            | None \<Rightarrow> do {
                e \<leftarrow> sd_StartTransient os unit' (''GeeseFS mount for Kubernetes volume '' @ volumeID) args (unitEnvironment g);
                case e of
                  Some er \<Rightarrow> State_Monad.return
                    (Some (Errorf (''Error starting systemd unit '' @ unit' @ '' on host: '' @ error_text er)))
                | None \<Rightarrow> waitForMount os target 30000 0
              }
          }
      })"

definition mountUnit ::
  "'o os \<Rightarrow> geesefsMounter \<Rightarrow> path \<Rightarrow> string \<Rightarrow> string list \<Rightarrow> ('o, err option) state" where
  "mountUnit os g target volumeID args = do {
     u \<leftarrow> sd_GetProperties os (unitName os volumeID);
     case u of
       None \<Rightarrow> startUnit os g target volumeID args
     | Some info \<Rightarrow>
         if (case ActiveState info of None \<Rightarrow> False | Some s \<Rightarrow> active_state s) then
           if current_path info \<noteq> target
           then State_Monad.return (Some (Errorf (''GeeseFS for volume '' @ volumeID
             @ '' is already mounted on host, but in a different directory. We want '' @ target
             @ '', but it's in '' @ current_path info)))
           else waitForMount os target 30000 0
         else do {
           _ \<leftarrow> sd_StopUnit os (unitName os volumeID);
           sd_ResetFailed os (unitName os volumeID);
           startUnit os g target volumeID args
         }
   }"

definition unit_args :: "path \<Rightarrow> geesefsMounter \<Rightarrow> path \<Rightarrow> string list" where
  "unit_args dir g target =
     [dir @ ''/geesefs'', ''-f'', ''-o'', ''allow_other'', ''--endpoint'', gEndpoint g] @ geesefs_args g target"

definition geesefs_Mount :: "geesefsMounter \<Rightarrow> 'o os \<Rightarrow> path \<Rightarrow> string \<Rightarrow> ('o, err option) state" where
  "geesefs_Mount g0 os target volumeID = do {
     (g, e) \<leftarrow> writeCABundle os g0;
     case e of
       Some er \<Rightarrow> State_Monad.return (Some (Errorf (''writing CA bundle: '' @ error_text er)))
     | None \<Rightarrow>
         if \<not> oSystemd (geesefs_options g) then MountDirect os g target (geesefs_args g target)
         else do {
           c \<leftarrow> sd_New os;
           case c of
             Some er \<Rightarrow> MountDirect os g target (geesefs_args g target)
           | None \<Rightarrow> do {
               cp \<leftarrow> CopyBinary os ''/usr/bin/geesefs'' ''/csi/geesefs'';
               case cp of
                 Some er \<Rightarrow> State_Monad.return (Some er)
               | None \<Rightarrow> do {
                   dir \<leftarrow> pluginDir os;
                   mountUnit os g target volumeID (unit_args dir g target)
                 }
             }
         }
   }"

section \<open>s3fs and rclone\<close>

record s3fsMounter =
  sMeta :: FSMeta
  sUrl :: string
  sRegion :: string
  sPwFileContent :: string

definition newS3fsMounter :: "FSMeta \<Rightarrow> Config \<Rightarrow> s3fsMounter" where
  "newS3fsMounter meta cfg = \<lparr>sMeta = meta, sUrl = Endpoint cfg, sRegion = Region cfg,
     sPwFileContent = AccessKeyID cfg @ '':'' @ SecretAccessKey cfg\<rparr>"

text \<open>The file is opened without truncating it.\<close>

definition writes3fsPass :: "'o os \<Rightarrow> string \<Rightarrow> ('o, err option) state" where
  "writes3fsPass os pwFileContent = do {
     home \<leftarrow> os_Getenv os ''HOME'';
     e \<leftarrow> os_OverwriteFile os (home @ ''/.passwd-s3fs'') pwFileContent;
     State_Monad.return (map_option err_text e)
   }"

definition s3fs_args :: "s3fsMounter \<Rightarrow> path \<Rightarrow> string list" where
  "s3fs_args m target =
     [BucketName (sMeta m) @ '':/'' @ Prefix (sMeta m), target, ''-o'', ''use_path_request_style'',
      ''-o'', ''url='' @ sUrl m, ''-o'', ''allow_other'', ''-o'', ''mp_umask=000'']
     @ (if sRegion m \<noteq> '''' then [''-o'', ''endpoint='' @ sRegion m] else [])
     @ MountOptions (sMeta m)"

definition s3fs_Mount :: "s3fsMounter \<Rightarrow> 'o os \<Rightarrow> path \<Rightarrow> string \<Rightarrow> ('o, err option) state" where
  "s3fs_Mount m os target volumeID = do {
     e \<leftarrow> writes3fsPass os (sPwFileContent m);
     if e \<noteq> None then State_Monad.return e
     else fuseMount os target ''s3fs'' (s3fs_args m target) []
   }"

record rcloneMounter =
  rMeta :: FSMeta
  rUrl :: string
  rRegion :: string
  rAccessKeyID :: string
  rSecretAccessKey :: string

definition newRcloneMounter :: "FSMeta \<Rightarrow> Config \<Rightarrow> rcloneMounter" where
  "newRcloneMounter meta cfg = \<lparr>rMeta = meta, rUrl = Endpoint cfg, rRegion = Region cfg,
     rAccessKeyID = AccessKeyID cfg, rSecretAccessKey = SecretAccessKey cfg\<rparr>"

definition rclone_args :: "rcloneMounter \<Rightarrow> path \<Rightarrow> string list" where
  "rclone_args m target =
     [''mount'', '':s3:'' @ path_join [BucketName (rMeta m), Prefix (rMeta m)], target, ''--daemon'',
      ''--s3-provider=AWS'', ''--s3-env-auth=true'', ''--s3-endpoint='' @ rUrl m, ''--allow-other'',
      ''--vfs-cache-mode=writes'']
     @ (if rRegion m \<noteq> '''' then [''--s3-region='' @ rRegion m] else [])
     @ MountOptions (rMeta m)"

definition rclone_Mount :: "rcloneMounter \<Rightarrow> 'o os \<Rightarrow> path \<Rightarrow> string \<Rightarrow> ('o, err option) state" where
  "rclone_Mount m os target volumeID =
     fuseMount os target ''rclone'' (rclone_args m target)
       [''AWS_ACCESS_KEY_ID='' @ rAccessKeyID m, ''AWS_SECRET_ACCESS_KEY='' @ rSecretAccessKey m]"

section \<open>The choice\<close>

datatype mounter = Geesefs geesefsMounter | S3fs s3fsMounter | Rclone rcloneMounter

definition New :: "FSMeta \<Rightarrow> Config \<Rightarrow> mounter" where
  "New meta cfg =
     (let kind = (if MetaMounter meta = '''' then CfgMounter cfg else MetaMounter meta) in
      if kind = ''geesefs'' then Geesefs (newGeeseFSMounter meta cfg)
      else if kind = ''s3fs'' then S3fs (newS3fsMounter meta cfg)
      else if kind = ''rclone'' then Rclone (newRcloneMounter meta cfg)
      else Geesefs (newGeeseFSMounter meta cfg))"

fun Mount :: "mounter \<Rightarrow> 'o os \<Rightarrow> path \<Rightarrow> string \<Rightarrow> ('o, err option) state" where
  "Mount (Geesefs g) = geesefs_Mount g"
| "Mount (S3fs m) = s3fs_Mount m"
| "Mount (Rclone m) = rclone_Mount m"

section \<open>Every mounter keeps the contract\<close>

lemma startUnit_there:
  "mount_doc os mounted \<Longrightarrow> val_of (startUnit os g target vid args) s = None \<Longrightarrow>
    mounted (exec (startUnit os g target vid args) s) target"
  by (auto simp: startUnit_def Let_def intro: waitForMount_there split: option.splits)

lemma mountUnit_there:
  "mount_doc os mounted \<Longrightarrow> val_of (mountUnit os g target vid args) s = None \<Longrightarrow>
    mounted (exec (mountUnit os g target vid args) s) target"
  by (auto simp: mountUnit_def intro: waitForMount_there startUnit_there split: option.splits if_splits)

lemma MountDirect_there:
  "mount_doc os mounted \<Longrightarrow> val_of (MountDirect os g target args) s = None \<Longrightarrow>
    mounted (exec (MountDirect os g target args) s) target"
  by (simp add: MountDirect_def Let_def fuseMount_there)

interpretation geesefs: mounter_iface geesefs_Mount
proof
  fix os :: "'o os" and mounted m target vid s
  assume "mount_doc os mounted" "val_of (geesefs_Mount m os target vid) s = None"
  then show "mounted (exec (geesefs_Mount m os target vid) s) target"
    by (auto simp: geesefs_Mount_def intro: MountDirect_there mountUnit_there
        split: prod.splits option.splits if_splits)
qed

interpretation s3fs: mounter_iface s3fs_Mount
  by unfold_locales (auto simp: s3fs_Mount_def intro: fuseMount_there split: if_splits)

interpretation rclone: mounter_iface rclone_Mount
  by unfold_locales (auto simp: rclone_Mount_def intro: fuseMount_there)

interpretation any: mounter_iface Mount
proof
  fix os :: "'o os" and mounted m target vid s
  assume "mount_doc os mounted" "val_of (Mount m os target vid) s = None"
  then show "mounted (exec (Mount m os target vid) s) target"
    using geesefs.mount_there s3fs.mount_there rclone.mount_there by (cases m) simp_all
qed

section \<open>The option filter\<close>

text \<open>An option that opens a file of the host: one dash or two, the name, and perhaps a value.\<close>

definition unsafe_option :: "string \<Rightarrow> bool" where
  "unsafe_option opt \<longleftrightarrow> (\<exists>k \<in> {''log-file'', ''shared-config'', ''cache''}. \<exists>dashes \<in> {''-'', ''--''}.
     opt = dashes @ k \<or> prefix (dashes @ k @ ''='') opt)"

lemma unsafe_option_key: "unsafe_option opt \<Longrightarrow> opt \<noteq> '''' \<and> opt ! 0 = CHR ''-'' \<and> unsafe_key (option_key opt)"
  by (auto simp: unsafe_option_def option_key_def unsafe_key_def prefix_def)

lemma no_name_is_safe [simp]: "\<not> unsafe_key ''''"
  by (simp add: unsafe_key_def)

lemma takeWhile_upto: "c \<notin> set k \<Longrightarrow> takeWhile (\<lambda>x. x \<noteq> c) (k @ c # v) = k"
  by (induction k) auto

lemma filter_options_args:
  "\<exists>kept. oArgs (filter_options st opts) = oArgs st @ kept \<and> (\<forall>x \<in> set kept. x \<in> set opts \<and> \<not> unsafe_option x)"
proof (induction st opts rule: filter_options.induct)
  case (2 st opt rest)
  have grow: "\<exists>kept. oArgs (filter_options (st\<lparr>oArgs := oArgs st @ [opt]\<rparr>) rest) = oArgs st @ kept \<and>
      (\<forall>x \<in> set kept. x \<in> set (opt # rest) \<and> \<not> unsafe_option x)"
    if "\<not> unsafe_option opt" "\<exists>kept. oArgs (filter_options (st\<lparr>oArgs := oArgs st @ [opt]\<rparr>) rest) =
      oArgs (st\<lparr>oArgs := oArgs st @ [opt]\<rparr>) @ kept \<and> (\<forall>x \<in> set kept. x \<in> set rest \<and> \<not> unsafe_option x)"
  proof -
    from that(2) obtain kept where "oArgs (filter_options (st\<lparr>oArgs := oArgs st @ [opt]\<rparr>) rest) =
      oArgs st @ opt # kept" "\<forall>x \<in> set kept. x \<in> set rest \<and> \<not> unsafe_option x" by auto
    with that(1) show ?thesis by (intro exI[of _ "opt # kept"]) auto
  qed
  consider "opt = ''--no-systemd''" | "opt \<noteq> ''--no-systemd''" "opt = ''''"
    | "opt \<noteq> ''--no-systemd''" "opt \<noteq> ''''" "opt ! 0 \<noteq> CHR ''-''"
    | "opt \<noteq> ''--no-systemd''" "opt \<noteq> ''''" "opt ! 0 = CHR ''-''" "unsafe_key (option_key opt)"
    | "opt \<noteq> ''--no-systemd''" "opt \<noteq> ''''" "opt ! 0 = CHR ''-''" "\<not> unsafe_key (option_key opt)" "option_key opt = ''''"
    | "opt \<noteq> ''--no-systemd''" "opt \<noteq> ''''" "opt ! 0 = CHR ''-''" "\<not> unsafe_key (option_key opt)" "option_key opt \<noteq> ''''"
    by blast
  then show ?case
  proof cases
    case 1
    with "2.IH"(1) show ?thesis by fastforce
  next
    case 2
    with "2.IH" show ?thesis by fastforce
  next
    case 3
    then have "\<not> unsafe_option opt" using unsafe_option_key by auto
    from grow[OF this] 3 "2.IH" show ?thesis by simp
  next
    case 4
    show ?thesis
    proof (cases rest)
      case (Cons v rest')
      with 4 "2.IH"(2)[OF 4(1) _ refl 4(4) Cons] show ?thesis by (auto simp: Let_def)
    qed (use 4 in \<open>simp add: Let_def\<close>)
  next
    case 5
    with "2.IH" show ?thesis by (fastforce simp: Let_def)
  next
    case 6
    then have "\<not> unsafe_option opt" using unsafe_option_key by auto
    from grow[OF this] 6 "2.IH" show ?thesis by (simp add: Let_def)
  qed
qed simp

text \<open>Every option given is passed on or set aside, or is one of those that say nothing.\<close>

lemma filter_options_all:
  "set (oArgs st) \<union> set (oUnsafe st) \<subseteq> set (oArgs (filter_options st opts)) \<union> set (oUnsafe (filter_options st opts)) \<and>
   (\<forall>x \<in> set opts. x \<in> set (oArgs (filter_options st opts)) \<union> set (oUnsafe (filter_options st opts)) \<or>
      x = ''--no-systemd'' \<or> x = '''' \<or> x ! 0 = CHR ''-'' \<and> option_key x = '''')"
proof (induction st opts rule: filter_options.induct)
  case (2 st opt rest)
  show ?case
  proof (cases "opt \<noteq> ''--no-systemd'' \<and> opt \<noteq> '''' \<and> opt ! 0 = CHR ''-'' \<and> unsafe_key (option_key opt)")
    case True
    then have opt: "opt \<noteq> ''--no-systemd''" "opt \<noteq> ''''" "opt ! 0 = CHR ''-''" "unsafe_key (option_key opt)"
      by auto
    show ?thesis
    proof (cases rest)
      case (Cons v rest')
      with opt "2.IH"(2)[OF opt(1) _ refl opt(4) Cons] show ?thesis by (auto simp: Let_def)
    qed (use opt in \<open>auto simp: Let_def\<close>)
  next
    case False
    with "2.IH" show ?thesis by (auto simp: Let_def)
  qed
qed simp

section \<open>Properties\<close>

text \<open>C18. Whatever mounter a volume asks for, a mount that reports success is there: the kernel has a
  mount at the target, and would say so if asked again.\<close>

theorem mount_is_there:
  assumes "mount_doc os mounted" "val_of (Mount (New meta cfg) os target vid) s = None"
  shows "mounted (exec (Mount (New meta cfg) os target vid) s) target \<and>
    val_of (mu_IsLikelyNotMountPoint os target) (exec (Mount (New meta cfg) os target vid) s) \<noteq> Inr True"
  using any.mount_there[OF assms] any.asked_after[OF assms] by simp

definition sample_meta :: FSMeta where
  "sample_meta = \<lparr>BucketName = ''b'', Prefix = ''p'', MetaMounter = ''rclone'', MountOptions = [], CapacityBytes = 0\<rparr>"

definition sample_cfg :: Config where
  "sample_cfg = \<lparr>AccessKeyID = ''a'', SecretAccessKey = ''s'', Region = '''', Endpoint = ''e'', CfgMounter = '''',
     Insecure = False, CABundle = '''', CfgBucket = ''''\<rparr>"

lemma idle_answers:
  "val_of (mu_IsLikelyNotMountPoint idle_os p) s = Inr False" "val_of (os_Run idle_os cmd args env) s = ('''', True)"
  by (simp_all add: idle_os_def)

lemma idle_mounts: "mount_doc (idle_os :: 'o os) (\<lambda>s p. True)"
  by (simp add: mount_doc_def idle_os_def)

theorem mount_is_there_witness:
  "val_of (mu_IsLikelyNotMountPoint idle_os ''/t'') (exec (Mount (New sample_meta sample_cfg) idle_os ''/t'' ''v'') ()) \<noteq> Inr True"
proof -
  have "val_of (Mount (New sample_meta sample_cfg) idle_os ''/t'' ''v'') () = None"
    by (simp add: New_def sample_meta_def rclone_Mount_def fuseMount_def waitForMount_round(1) idle_answers
        split: prod.split)
  from mount_is_there[OF idle_mounts this] show ?thesis by blast
qed

text \<open>C19. A mounter run by the host's systemd never gets an option that opens the host's files: the
  arguments of the unit that come from the volume's options contain no \<open>log-file\<close>, \<open>shared-config\<close>
  or \<open>cache\<close>, with one dash or two, with an inline value or not.\<close>

theorem systemd_args_safe:
  assumes "oSystemd (geesefs_options g)"
  shows "\<exists>kept. geesefs_args g target = base_args g @ kept @ [BucketName (gMeta g) @ '':'' @ Prefix (gMeta g), target] \<and>
    (\<forall>x \<in> set kept. x \<in> set (MountOptions (gMeta g)) \<and> \<not> unsafe_option x)"
  using filter_options_args[of "\<lparr>oArgs = base_args g, oUnsafe = [], oSystemd = True\<rparr>" "MountOptions (gMeta g)"] assms
  by (auto simp: geesefs_args_def geesefs_options_def Let_def)

definition sample_geesefs :: "string list \<Rightarrow> geesefsMounter" where
  "sample_geesefs opts = newGeeseFSMounter (sample_meta\<lparr>MountOptions := opts\<rparr>) sample_cfg"

theorem systemd_args_safe_witness:
  "\<exists>kept. geesefs_args (sample_geesefs [''--cache'', ''/etc'', ''-o'']) ''/t'' =
     base_args (sample_geesefs [''--cache'', ''/etc'', ''-o'']) @ kept @ [''b:p'', ''/t''] \<and>
     (\<forall>x \<in> set kept. \<not> unsafe_option x)"
proof -
  have "oSystemd (geesefs_options (sample_geesefs [''--cache'', ''/etc'', ''-o'']))" by code_simp
  from systemd_args_safe[OF this, of "''/t''"] show ?thesis
    by (auto simp: sample_geesefs_def newGeeseFSMounter_def sample_meta_def)
qed

text \<open>Run in the container, with \<open>--no-systemd\<close>, GeeseFS gets every option: each one given is among
  its arguments, the unsafe ones too, except those that have no name.\<close>

theorem direct_args_complete:
  assumes "\<not> oSystemd (geesefs_options g)" "x \<in> set (MountOptions (gMeta g))"
  shows "x \<in> set (geesefs_args g target) \<or> x = ''--no-systemd'' \<or> x = '''' \<or> x ! 0 = CHR ''-'' \<and> option_key x = ''''"
  using filter_options_all[of "\<lparr>oArgs = base_args g, oUnsafe = [], oSystemd = True\<rparr>" "MountOptions (gMeta g)"] assms
  by (auto simp: geesefs_args_def geesefs_options_def Let_def)

theorem direct_args_complete_witness:
  "''/etc'' \<in> set (geesefs_args (sample_geesefs [''--no-systemd'', ''--cache'', ''/etc'']) ''/t'')"
proof -
  let ?g = "sample_geesefs [''--no-systemd'', ''--cache'', ''/etc'']"
  have "\<not> oSystemd (geesefs_options ?g)" by code_simp
  moreover have "''/etc'' \<in> set (MountOptions (gMeta ?g))"
    by (simp add: sample_geesefs_def newGeeseFSMounter_def)
  ultimately show ?thesis using direct_args_complete[of ?g "''/etc''" "''/t''"] by auto
qed

text \<open>C40. An unsafe option with its value inline takes the option after it along: with systemd both
  are dropped.\<close>

theorem inline_value_swallows_next:
  assumes "unsafe_key k" "opt = ''--'' @ k @ ''='' @ v"
  shows "filter_options st (opt # next # rest) = filter_options (st\<lparr>oUnsafe := oUnsafe st @ [opt, next]\<rparr>) rest"
proof -
  have "CHR ''='' \<notin> set k" using assms(1) by (auto simp: unsafe_key_def)
  then have key: "option_key opt = k"
    by (simp add: assms(2) option_key_def takeWhile_upto)
  moreover have "opt \<noteq> ''--no-systemd''"
  proof
    assume "opt = ''--no-systemd''"
    then have "CHR ''='' \<in> set ''--no-systemd''" by (metis assms(2) in_set_conv_decomp append_Cons append_assoc)
    then show False by simp
  qed
  ultimately show ?thesis using assms by (simp add: Let_def)
qed

theorem inline_value_swallows_next_witness:
  "oArgs (filter_options \<lparr>oArgs = [], oUnsafe = [], oSystemd = True\<rparr> [''--cache=/x'', ''--memory-limit=1''])  = []"
  using inline_value_swallows_next[of "''cache''" "''--cache=/x''" "''/x''" _ "''--memory-limit=1''" "[]"]
  by (simp add: unsafe_key_def)

text \<open>The password file of s3fs is written over, not replaced: what it held beyond the length of
  the new credentials stays behind them, so that after longer ones it is not the new ones.\<close>

theorem s3fs_password_tail:
  assumes "file_doc os file" "val_of (writes3fsPass os pw) s = None" "\<And>t. file (exec (os_Getenv os ''HOME'') t) = file t"
    and "q = val_of (os_Getenv os ''HOME'') s @ ''/.passwd-s3fs''"
    and "file s q = Some old"
  shows "file (exec (writes3fsPass os pw) s) q = Some (pw @ drop (length pw) old) \<and>
    (length pw < length old \<longrightarrow> file (exec (writes3fsPass os pw) s) q \<noteq> Some pw)"
proof -
  let ?s = "exec (os_Getenv os ''HOME'') s"
  have "val_of (os_OverwriteFile os q pw) ?s = None" using assms(2,4) by (simp add: writes3fsPass_def)
  then have "file (exec (os_OverwriteFile os q pw) ?s) q = Some (pw @ drop (length pw) old)"
    using assms(1,3,5) by (simp add: file_doc_def)
  then show ?thesis using assms(4) by (simp add: writes3fsPass_def)
qed

theorem s3fs_password_tail_witness:
  "exec (writes3fsPass file_os ''a:b'') [''/.passwd-s3fs'' \<mapsto> ''key:secret''] ''/.passwd-s3fs'' = Some ''a:b:secret''"
proof -
  define old where "old = [''/.passwd-s3fs'' \<mapsto> ''key:secret'']"
  have home: "exec (os_Getenv file_os ''HOME'') t = t" "val_of (os_Getenv file_os ''HOME'') old = ''''" for t
    by (simp_all add: file_os_def idle_os_def)
  have ok: "val_of (writes3fsPass file_os ''a:b'') old = None"
    by (simp add: writes3fsPass_def file_os_def)
  have here: "old ''/.passwd-s3fs'' = Some ''key:secret''" by (simp add: old_def)
  show ?thesis
    using s3fs_password_tail[of file_os "\<lambda>s. s", OF file_os_doc ok _ _ here] home
    unfolding old_def[symmetric] by (simp add: eval_nat_numeral)
qed

end
