(* ===== verification/Mountinfo.thy ===== *)
theory Mountinfo
  imports GoStrings
begin

text \<open>
  Reading /proc/<pid>/mountinfo (pkg/driver/graft.go): its lines, the kernel's octal escapes in
  the paths, and the per-mount flags a graft keeps, with the reader of those flags in the helper
  nsmount-heal (cmd/nsmount-heal/heal.c). The writing side, what the kernel puts into the file,
  is the specification \<open>show_mount\<close>.
\<close>

record mountEntry =
  me_dev :: string
  me_root :: path
  me_mountPoint :: path
  me_opts :: string
  me_fstype :: string

section \<open>Escapes\<close>

abbreviation backslash_char :: char where "backslash_char \<equiv> CHR 0x5C"

text \<open>The loop: an escape is a backslash and three octal digits of value at most 255.\<close>

fun unescape_from :: "string \<Rightarrow> string" where
  "unescape_from [] = []"
| "unescape_from (c # s) =
     (if c = backslash_char \<and> 3 \<le> length s
      then (case parse_uint 8 255 (take 3 s) of
              NumOk n \<Rightarrow> char_of n # unescape_from (drop 3 s)
            | _ \<Rightarrow> c # unescape_from s)
      else c # unescape_from s)"

definition unescapeMount :: "string \<Rightarrow> string" where
  "unescapeMount s = (if backslash_char \<notin> set s then s else unescape_from s)"

section \<open>Lines\<close>

definition parse_line :: "string \<Rightarrow> mountEntry option" where
  "parse_line line =
     (let f = Fields line in
      case dropWhile (\<lambda>x. x \<noteq> ''-'') (drop 6 f) of
        _ # fs # _ \<Rightarrow> Some \<lparr>me_dev = f ! 2, me_root = unescapeMount (f ! 3),
            me_mountPoint = unescapeMount (f ! 4), me_opts = f ! 5, me_fstype = fs\<rparr>
      | _ \<Rightarrow> None)"

definition parseMountinfo :: "string \<Rightarrow> mountEntry list" where
  "parseMountinfo b = List.map_filter parse_line (split_on (CHR 0x0A) b)"

section \<open>Flags of a graft\<close>

definition graft_flag :: "string \<Rightarrow> bool" where
  "graft_flag opt \<longleftrightarrow> opt \<in> {''ro'', ''nosuid'', ''nodev'', ''noexec''}"

definition graftFlags :: "string \<Rightarrow> string" where
  "graftFlags mopts = join '','' (filter graft_flag (split_on (CHR '','') mopts))"

datatype mount_attr = RDONLY | NOSUID | NODEV | NOEXEC

text \<open>One token of \<open>mount_flags\<close>, and the loop over the tokens \<open>strtok_r\<close> gives (it skips empty ones).\<close>

definition flag_attr :: "string \<Rightarrow> mount_attr option" where
  "flag_attr f =
     (if f = ''ro'' then Some RDONLY else if f = ''nosuid'' then Some NOSUID
      else if f = ''nodev'' then Some NODEV else if f = ''noexec'' then Some NOEXEC else None)"

fun mount_flags :: "string list \<Rightarrow> mount_attr set option" where
  "mount_flags [] = Some {}"
| "mount_flags (f # fs) =
     (case flag_attr f of None \<Rightarrow> None | Some a \<Rightarrow> map_option (insert a) (mount_flags fs))"

definition strtok_all :: "char \<Rightarrow> string \<Rightarrow> string list" where
  "strtok_all c s = filter (\<lambda>w. w \<noteq> '''') (split_on c s)"

lemma graft_flag_iff: "graft_flag f \<longleftrightarrow> flag_attr f \<noteq> None"
  unfolding graft_flag_def flag_attr_def by simp

lemma mount_flags_all:
  "\<forall>f \<in> set fs. graft_flag f \<Longrightarrow> mount_flags fs = Some {a. \<exists>f \<in> set fs. flag_attr f = Some a}"
  by (induction fs) (auto simp: graft_flag_iff)

lemma strtok_join: "\<forall>w \<in> set ws. w \<noteq> [] \<and> c \<notin> set w \<Longrightarrow> strtok_all c (join [c] ws) = ws"
proof (cases "ws = []")
  case False
  assume ws: "\<forall>w \<in> set ws. w \<noteq> [] \<and> c \<notin> set w"
  with False have "split_on c (join [c] ws) = ws" by (simp add: split_on_join)
  with ws show ?thesis by (simp add: strtok_all_def filter_id_conv)
qed (simp add: strtok_all_def)

lemma graft_flag_token: "graft_flag f \<Longrightarrow> f \<noteq> [] \<and> CHR '','' \<notin> set f"
  by (auto simp: graft_flag_def)

section \<open>What the kernel writes\<close>

text \<open>The escapes of \<open>mangle_path\<close> with the set space, tab, newline, backslash.\<close>

definition escape_char :: "char \<Rightarrow> string" where
  "escape_char c =
     (if c \<in> {CHR 0x20, CHR 0x09, CHR 0x0A, backslash_char}
      then (let n = of_char c in
            [backslash_char, digit_char (n div 64), digit_char (n div 8 mod 8), digit_char (n mod 8)])
      else [c])"

definition escape_path :: "path \<Rightarrow> string" where
  "escape_path p = concat (map escape_char p)"

lemma escaped_chars: "char_of (32 :: nat) = CHR 0x20" "char_of (9 :: nat) = CHR 0x09"
  "char_of (10 :: nat) = CHR 0x0A" "char_of (92 :: nat) = CHR 0x5C"
  by code_simp+

lemma unescape_escape_char: "unescape_from (escape_char c @ s) = c # unescape_from s"
  by (auto simp: escaped_chars escape_char_def parse_uint_def digit_char_def digit_val_def Let_def)

lemma unescape_escape: "unescape_from (escape_path p) = p"
  by (induction p) (simp_all add: escape_path_def unescape_escape_char)

lemma unescape_plain: "backslash_char \<notin> set s \<Longrightarrow> unescape_from s = s"
  by (induction s) auto

lemma unescapeMount_escape: "unescapeMount (escape_path p) = p"
  using unescape_escape[of p] unescape_plain[of "escape_path p"] by (metis unescapeMount_def)

text \<open>A line of the file: the entry it is about and the fields the driver does not read.\<close>

record mountLine =
  ml_entry :: mountEntry
  ml_id :: string
  ml_parent :: string
  ml_tags :: "string list"
  ml_source :: string
  ml_super :: string

definition line_words :: "mountLine \<Rightarrow> string list" where
  "line_words l = (let e = ml_entry l in
     [ml_id l, ml_parent l, me_dev e, escape_path (me_root e), escape_path (me_mountPoint e), me_opts e]
     @ ml_tags l @ [''-'', me_fstype e, ml_source l, ml_super l])"

definition show_mount :: "mountLine \<Rightarrow> string" where
  "show_mount l = join '' '' (line_words l)"

definition show_mountinfo :: "mountLine list \<Rightarrow> string" where
  "show_mountinfo ls = concat (map (\<lambda>l. show_mount l @ [CHR 0x0A]) ls)"

definition line_ok :: "mountLine \<Rightarrow> bool" where
  "line_ok l \<longleftrightarrow> (\<forall>w \<in> set (line_words l). word_ok w) \<and> ''-'' \<notin> set (ml_tags l)"

lemma unspaced_no_space: "unspaced w \<Longrightarrow> c \<in> set w \<Longrightarrow> \<not> ascii_space c"
  by (induction w) (auto split: if_splits)

lemma newline_not_in_join:
  "(\<And>w. w \<in> set ws \<Longrightarrow> word_ok w) \<Longrightarrow> CHR 0x0A \<notin> set (join '' '' ws)"
proof (induction "'' ''" ws rule: join.induct)
  case (2 w)
  then show ?case using unspaced_no_space[of w "CHR 0x0A"] by (auto simp: word_ok_def ascii_space_def)
next
  case (3 w v ws)
  then show ?case using unspaced_no_space[of w "CHR 0x0A"] by (auto simp: word_ok_def ascii_space_def)
qed simp

lemma dropWhile_tags: "x \<notin> set ts \<Longrightarrow> dropWhile (\<lambda>y. y \<noteq> x) (ts @ x # r) = x # r"
  by (induction ts) auto

lemma parse_shown_line: "line_ok l \<Longrightarrow> parse_line (show_mount l) = Some (ml_entry l)"
  using Fields_join[of "line_words l"]
  by (simp add: parse_line_def show_mount_def line_ok_def)
    (simp add: line_words_def Let_def dropWhile_tags unescapeMount_escape)

lemma split_lines:
  "(\<And>w. w \<in> set ws \<Longrightarrow> c \<notin> set w) \<Longrightarrow> split_on c (concat (map (\<lambda>w. w @ [c]) ws)) = ws @ [[]]"
  by (induction ws) (auto simp: split_on_append_sep)

lemma parse_line_Nil: "parse_line [] = None"
  by (simp add: parse_line_def)

text \<open>What the kernel wrote is read back, entry by entry.\<close>

lemma parse_shown:
  assumes "\<And>l. l \<in> set ls \<Longrightarrow> line_ok l"
  shows "parseMountinfo (show_mountinfo ls) = map ml_entry ls"
proof -
  have "CHR 0x0A \<notin> set (show_mount l)" if "l \<in> set ls" for l
    unfolding show_mount_def by (rule newline_not_in_join) (use assms[OF that] in \<open>simp add: line_ok_def\<close>)
  then have "split_on (CHR 0x0A) (show_mountinfo ls) = map show_mount ls @ [[]]"
    using split_lines[of "map show_mount ls" "CHR 0x0A"] by (auto simp: show_mountinfo_def comp_def)
  moreover have "List.map_filter parse_line (map show_mount ls) = map ml_entry ls"
    using assms by (induction ls) (simp_all add: List.map_filter_simps parse_shown_line)
  ultimately show ?thesis
    by (simp add: parseMountinfo_def List.map_filter_def parse_line_Nil)
qed

text \<open>The topmost mount at a path: the last of its lines.\<close>

definition device_of :: "mountEntry list \<Rightarrow> path \<Rightarrow> string" where
  "device_of ms p = foldl (\<lambda>dev m. if me_mountPoint m = p then me_dev m else dev) '''' ms"

lemma device_of_last:
  "device_of ms p = (let at_p = filter (\<lambda>m. me_mountPoint m = p) ms
    in if at_p = [] then '''' else me_dev (last at_p))"
  by (induction ms rule: rev_induct) (auto simp: device_of_def Let_def)

section \<open>Properties\<close>


definition sample_line :: mountLine where
  "sample_line = \<lparr>ml_entry = \<lparr>me_dev = ''0:52'', me_root = ''/'', me_mountPoint = ''/a b'', me_opts = ''rw,nosuid'',
      me_fstype = ''fuse.geesefs''\<rparr>,
     ml_id = ''36'', ml_parent = ''35'', ml_tags = [''shared:1''], ml_source = ''bucket'', ml_super = ''rw''\<rparr>"

lemma escaped_digits: "char_of (48 :: nat) = CHR ''0''" "char_of (52 :: nat) = CHR ''4''"
  by code_simp+


text \<open>Every kernel escape is undone and nothing else is touched: a path comes back from its
  escaped form, and a text without backslashes is left as it is.\<close>

theorem unescape_inverts: "unescapeMount (escape_path p) = p \<and> (backslash_char \<notin> set s \<longrightarrow> unescapeMount s = s)"
  by (simp add: unescapeMount_escape) (simp add: unescapeMount_def)

theorem unescape_inverts_witness: "unescapeMount (escape_path [backslash_char, CHR ''0'']) = [backslash_char, CHR ''0''] \<and>
    unescapeMount ''/mnt'' = ''/mnt''"
  using unescape_inverts[of "[backslash_char, CHR ''0'']" "''/mnt''"] by simp

text \<open>The helper understands every flag list the supervisor passes it, and sets on the graft
  exactly the flags among read-only, nosuid, nodev and noexec that the replaced mount had: a
  read-only volume mount stays read-only.\<close>

theorem graft_flags_accepted:
  "mount_flags (strtok_all (CHR '','') (graftFlags mopts)) =
     Some {a. \<exists>f \<in> set (split_on (CHR '','') mopts). flag_attr f = Some a}"
proof -
  let ?fs = "filter graft_flag (split_on (CHR '','') mopts)"
  have "strtok_all (CHR '','') (graftFlags mopts) = ?fs"
    unfolding graftFlags_def by (rule strtok_join) (auto dest: graft_flag_token)
  moreover have "{a. \<exists>f \<in> set ?fs. flag_attr f = Some a} = {a. \<exists>f \<in> set (split_on (CHR '','') mopts). flag_attr f = Some a}"
    by (auto simp: graft_flag_iff)
  ultimately show ?thesis by (simp add: mount_flags_all)
qed

end
