(* ===== verification/SupState.thy ===== *)
theory SupState
  imports StateFile
begin

text \<open>
  The supervisor's registry (pkg/driver/supervisor.go, and the parts of watch.go, cache.go and
  graft.go that keep it): the staged volumes with their publish targets and dead devices, the
  watch and the walks of each volume. Every operation below is one critical section under
  \<open>s.mu\<close>, or a few in a row where the code releases the lock between them.
\<close>

section \<open>Watches and walks\<close>

definition startWatch :: "string \<Rightarrow> ('o world, unit) state" where
  "startWatch volumeID = do {
     w \<leftarrow> State_Monad.get;
     case vols w volumeID of
       None \<Rightarrow> State_Monad.return ()
     | Some v \<Rightarrow> do {
         (case watches w volumeID of None \<Rightarrow> State_Monad.return () | Some old \<Rightarrow> cancel (wrCtx old));
         c \<leftarrow> newCtx;
         let r = \<lparr>wrVolumeID = volumeID, wrStage = svStagePath v, wrRewarm = svRewarm v, wrCtx = c\<rparr>;
         State_Monad.update (\<lambda>w. w\<lparr>watches := (watches w)(volumeID \<mapsto> r)\<rparr>);
         spawn (WatchRun r (svVolumeContext v) (svSecrets v))
       }
   }"

definition ensureWatch :: "string \<Rightarrow> ('o world, unit) state" where
  "ensureWatch volumeID = do {
     w \<leftarrow> State_Monad.get;
     if watches w volumeID = None then startWatch volumeID else State_Monad.return ()
   }"

definition ensureWatches :: "'o plugin \<Rightarrow> ('o world, unit) state" where
  "ensureWatches p = do {
     w \<leftarrow> State_Monad.get;
     ids \<leftarrow> outside_m (rt_range (pOS p) (dom (vols w)));
     iter_m ensureWatch ids
   }"

definition stopWatch :: "string \<Rightarrow> ('o world, unit) state" where
  "stopWatch volumeID = do {
     w \<leftarrow> State_Monad.get;
     case watches w volumeID of
       None \<Rightarrow> State_Monad.return ()
     | Some r \<Rightarrow> do {
         cancel (wrCtx r);
         State_Monad.update (\<lambda>w. w\<lparr>watches := (watches w)(volumeID := None)\<rparr>)
       }
   }"

definition warm :: "string \<Rightarrow> path list \<Rightarrow> ('o world, unit) state" where
  "warm volumeID paths = do {
     w \<leftarrow> State_Monad.get;
     if vols w volumeID = None then State_Monad.return ()
     else do {
       c \<leftarrow> (case warming w volumeID of
           Some c \<Rightarrow> State_Monad.return c
         | None \<Rightarrow> do {
             c \<leftarrow> newCtx;
             State_Monad.update (\<lambda>w. w\<lparr>warming := (warming w)(volumeID \<mapsto> c)\<rparr>);
             State_Monad.return c
           });
       spawn (WarmUp c paths)
     }
   }"

definition stopWarm :: "string \<Rightarrow> ('o world, unit) state" where
  "stopWarm volumeID = do {
     w \<leftarrow> State_Monad.get;
     case warming w volumeID of
       None \<Rightarrow> State_Monad.return ()
     | Some c \<Rightarrow> do {
         cancel c;
         State_Monad.update (\<lambda>w. w\<lparr>warming := (warming w)(volumeID := None)\<rparr>)
       }
   }"

section \<open>Volumes\<close>

definition recordStage ::
  "'o plugin \<Rightarrow> string \<Rightarrow> path \<Rightarrow> smap \<Rightarrow> smap \<Rightarrow> bool \<Rightarrow> ('o world, unit) state" where
  "recordStage p volumeID stagePath volumeContext secrets rewarm = do {
     w \<leftarrow> State_Monad.get;
     let prev = vols w volumeID;
     let v = \<lparr>svVolumeID = volumeID, svStagePath = stagePath, svVolumeContext = volumeContext,
              svSecrets = secrets,
              svPublishes = (case prev of None \<Rightarrow> [] | Some o' \<Rightarrow> svPublishes o'),
              svRewarm = rewarm,
              svDead = (case prev of None \<Rightarrow> [] | Some o' \<Rightarrow> svDead o')\<rparr>;
     State_Monad.update (\<lambda>w. w\<lparr>vols := (vols w)(volumeID \<mapsto> v)\<rparr>);
     persist p
   }"

definition dropVolume :: "'o plugin \<Rightarrow> string \<Rightarrow> ('o world, unit) state" where
  "dropVolume p volumeID = do {
     State_Monad.update (\<lambda>w. w\<lparr>vols := (vols w)(volumeID := None)\<rparr>);
     persist p
   }"

definition forgetStage :: "'o plugin \<Rightarrow> string \<Rightarrow> ('o world, unit) state" where
  "forgetStage p volumeID = do {
     stopWatch volumeID;
     stopWarm volumeID;
     dropVolume p volumeID
   }"

text \<open>The list of a volume's publish targets, kept sorted and without repetition.\<close>

definition add_publish :: "path \<Rightarrow> path list \<Rightarrow> path list" where
  "add_publish target ps = (if target \<in> set ps then ps else sort (ps @ [target]))"

definition remove_publish :: "path \<Rightarrow> path list \<Rightarrow> path list" where
  "remove_publish target ps = filter (\<lambda>t. t \<noteq> target) ps"

definition recordPublish :: "'o plugin \<Rightarrow> string \<Rightarrow> path \<Rightarrow> ('o world, unit) state" where
  "recordPublish p volumeID target = do {
     w \<leftarrow> State_Monad.get;
     case vols w volumeID of
       None \<Rightarrow> State_Monad.return ()
     | Some v \<Rightarrow>
         if target \<in> set (svPublishes v) then State_Monad.return ()
         else do {
           State_Monad.update (\<lambda>w. w\<lparr>vols := (vols w)(volumeID \<mapsto>
             v\<lparr>svPublishes := add_publish target (svPublishes v)\<rparr>)\<rparr>);
           persist p
         }
   }"

definition forgetPublish :: "'o plugin \<Rightarrow> string \<Rightarrow> path \<Rightarrow> ('o world, unit) state" where
  "forgetPublish p volumeID target = do {
     w \<leftarrow> State_Monad.get;
     case vols w volumeID of
       None \<Rightarrow> State_Monad.return ()
     | Some v \<Rightarrow> do {
         State_Monad.update (\<lambda>w. w\<lparr>vols := (vols w)(volumeID \<mapsto>
           v\<lparr>svPublishes := remove_publish target (svPublishes v)\<rparr>)\<rparr>);
         persist p
       }
   }"

text \<open>The dead devices of a volume, in the order they died.\<close>

definition add_dead :: "string \<Rightarrow> string list \<Rightarrow> string list" where
  "add_dead dev ds = (if dev \<in> set ds then ds else ds @ [dev])"

definition markDead :: "'o plugin \<Rightarrow> string \<Rightarrow> string \<Rightarrow> ('o world, unit) state" where
  "markDead p volumeID dev =
     (if dev = '''' then State_Monad.return ()
      else do {
        w \<leftarrow> State_Monad.get;
        case vols w volumeID of
          None \<Rightarrow> State_Monad.return ()
        | Some v \<Rightarrow>
            if dev \<in> set (svDead v) then State_Monad.return ()
            else do {
              State_Monad.update (\<lambda>w. w\<lparr>vols := (vols w)(volumeID \<mapsto>
                v\<lparr>svDead := add_dead dev (svDead v)\<rparr>)\<rparr>);
              persist p
            }
      })"

text \<open>The end of graftHolders: the devices not kept are forgotten, for every volume.\<close>

definition sweepDead :: "'o plugin \<Rightarrow> string set \<Rightarrow> ('o world, unit) state" where
  "sweepDead p keep = do {
     w \<leftarrow> State_Monad.get;
     let changed = (\<exists>i \<in> dom (vols w). \<exists>d \<in> set (svDead (the (vols w i))). d \<notin> keep);
     State_Monad.update (\<lambda>w. w\<lparr>vols := \<lambda>i. map_option
       (\<lambda>v. v\<lparr>svDead := filter (\<lambda>d. d \<in> keep) (svDead v)\<rparr>) (vols w i)\<rparr>);
     if changed then persist p else State_Monad.return ()
   }"

section \<open>What each operation leaves\<close>

definition new_watch :: "string \<Rightarrow> stagedVolume \<Rightarrow> ctx \<Rightarrow> watchRef" where
  "new_watch i v c = \<lparr>wrVolumeID = i, wrStage = svStagePath v, wrRewarm = svRewarm v, wrCtx = c\<rparr>"

lemma exec_startWatch [reg_simps]:
  "exec (startWatch i) w = (case vols w i of None \<Rightarrow> w
     | Some v \<Rightarrow> w\<lparr>watches := (watches w)(i \<mapsto> new_watch i v (nextCtx w)), nextCtx := Suc (nextCtx w),
         cancelled := (case watches w i of None \<Rightarrow> cancelled w | Some old \<Rightarrow> insert (wrCtx old) (cancelled w)),
         spawned := spawned w @ [WatchRun (new_watch i v (nextCtx w)) (svVolumeContext v) (svSecrets v)]\<rparr>)"
  by (simp add: startWatch_def new_watch_def Let_def split: option.split)

lemma exec_stopWatch [reg_simps]:
  "exec (stopWatch i) w = w\<lparr>watches := (watches w)(i := None),
     cancelled := (case watches w i of None \<Rightarrow> cancelled w | Some r \<Rightarrow> insert (wrCtx r) (cancelled w))\<rparr>"
  by (simp add: stopWatch_def fun_upd_idem split: option.split)

lemma exec_warm [reg_simps]:
  "exec (warm i ps) w = (if vols w i = None then w
     else case warming w i of
       Some c \<Rightarrow> w\<lparr>spawned := spawned w @ [WarmUp c ps]\<rparr>
     | None \<Rightarrow> w\<lparr>warming := (warming w)(i \<mapsto> nextCtx w), nextCtx := Suc (nextCtx w),
         spawned := spawned w @ [WarmUp (nextCtx w) ps]\<rparr>)"
  by (simp add: warm_def split: option.split)

lemma exec_stopWarm [reg_simps]:
  "exec (stopWarm i) w = w\<lparr>warming := (warming w)(i := None),
     cancelled := (case warming w i of None \<Rightarrow> cancelled w | Some c \<Rightarrow> insert c (cancelled w))\<rparr>"
  by (simp add: stopWarm_def fun_upd_idem split: option.split)

text \<open>The operations on volumes change no watch and no walk; what they leave of the volumes:\<close>

lemma vols_recordStage [reg_simps]:
  "vols (exec (recordStage p i sp vc se rw) w) = (vols w)(i \<mapsto>
     \<lparr>svVolumeID = i, svStagePath = sp, svVolumeContext = vc, svSecrets = se,
      svPublishes = (case vols w i of None \<Rightarrow> [] | Some v \<Rightarrow> svPublishes v), svRewarm = rw,
      svDead = (case vols w i of None \<Rightarrow> [] | Some v \<Rightarrow> svDead v)\<rparr>)"
  by (simp add: recordStage_def Let_def)

lemma vols_dropVolume [reg_simps]: "vols (exec (dropVolume p i) w) = (vols w)(i := None)"
  by (simp add: dropVolume_def)

lemma vols_recordPublish [reg_simps]:
  "vols (exec (recordPublish p i t) w) = (case vols w i of None \<Rightarrow> vols w
     | Some v \<Rightarrow> (vols w)(i \<mapsto> v\<lparr>svPublishes := add_publish t (svPublishes v)\<rparr>))"
  by (auto simp: recordPublish_def add_publish_def fun_upd_idem split: option.split)

lemma vols_forgetPublish [reg_simps]:
  "vols (exec (forgetPublish p i t) w) = (case vols w i of None \<Rightarrow> vols w
     | Some v \<Rightarrow> (vols w)(i \<mapsto> v\<lparr>svPublishes := remove_publish t (svPublishes v)\<rparr>))"
  by (simp add: forgetPublish_def split: option.split)

lemma vols_markDead [reg_simps]:
  "vols (exec (markDead p i d) w) = (if d = '''' then vols w else case vols w i of None \<Rightarrow> vols w
     | Some v \<Rightarrow> (vols w)(i \<mapsto> v\<lparr>svDead := add_dead d (svDead v)\<rparr>))"
  by (auto simp: markDead_def add_dead_def fun_upd_idem split: option.split)

lemma vols_sweepDead [reg_simps]:
  "vols (exec (sweepDead p keep) w) =
     (\<lambda>i. map_option (\<lambda>v. v\<lparr>svDead := filter (\<lambda>d. d \<in> keep) (svDead v)\<rparr>) (vols w i))"
  by (simp add: sweepDead_def Let_def)

text \<open>What an operation that only touches volumes leaves alone.\<close>

definition same_tasks :: "'o world \<Rightarrow> 'o world \<Rightarrow> bool" where
  "same_tasks w w' \<longleftrightarrow> watches w' = watches w \<and> warming w' = warming w \<and> nextCtx w' = nextCtx w \<and>
     cancelled w' = cancelled w \<and> spawned w' = spawned w"

lemma same_tasks_volumes:
  "same_tasks w (exec (recordStage p i sp vc se rw) w)" "same_tasks w (exec (dropVolume p i) w)"
  "same_tasks w (exec (recordPublish p i t) w)" "same_tasks w (exec (forgetPublish p i t) w)"
  "same_tasks w (exec (markDead p i d) w)" "same_tasks w (exec (sweepDead p keep) w)"
  "same_tasks w (w\<lparr>outside := s\<rparr>)" "same_tasks w (exec (persist p) w)"
  by (auto simp: same_tasks_def recordStage_def dropVolume_def recordPublish_def forgetPublish_def
      markDead_def sweepDead_def Let_def split: option.split)

section \<open>Lists that are sets\<close>

text \<open>Publish targets and dead devices are lists used as sets; the one contract of both.\<close>

locale set_list =
  fixes add :: "'a \<Rightarrow> 'a list \<Rightarrow> 'a list"
  assumes set_add: "set (add x xs) = insert x (set xs)"
    and distinct_add: "distinct xs \<Longrightarrow> distinct (add x xs)"
    and add_same: "x \<in> set xs \<Longrightarrow> add x xs = xs"
begin

lemma add_twice: "add x (add x xs) = add x xs"
  by (rule add_same) (simp add: set_add)

lemma length_add: "distinct xs \<Longrightarrow> length (add x xs) = (if x \<in> set xs then length xs else Suc (length xs))"
  using distinct_card[of xs] distinct_card[OF distinct_add, of xs x] by (auto simp: set_add add_same)

end

interpretation publishes: set_list add_publish
  by unfold_locales (auto simp: add_publish_def)

interpretation dead: set_list add_dead
  by unfold_locales (auto simp: add_dead_def)

section \<open>Contexts of a volume\<close>

text \<open>
  A table that gives a volume the context its goroutines run under, with the operation that ends
  them. Watches and walks are the two of them.
\<close>

locale ctx_table =
  fixes tab :: "'o world \<Rightarrow> string \<Rightarrow> ctx option"
    and stop :: "string \<Rightarrow> ('o world, unit) state"
  assumes stop_tab: "tab (exec (stop i) w) = (tab w)(i := None)"
    and stop_cancelled: "cancelled (exec (stop i) w) =
      (case tab w i of None \<Rightarrow> cancelled w | Some c \<Rightarrow> insert c (cancelled w))"
    and stop_rest: "vols (exec (stop i) w) = vols w" "spawned (exec (stop i) w) = spawned w"
      "nextCtx (exec (stop i) w) = nextCtx w" "outside (exec (stop i) w) = outside w"
begin

lemma stop_ends: "tab w i = Some c \<Longrightarrow> c \<in> cancelled (exec (stop i) w)"
  by (simp add: stop_cancelled)

lemma stop_keeps_ended: "cancelled w \<subseteq> cancelled (exec (stop i) w)"
  by (auto simp: stop_cancelled split: option.split)

lemma stop_spares: "c \<notin> cancelled w \<Longrightarrow> tab w i \<noteq> Some c \<Longrightarrow> c \<notin> cancelled (exec (stop i) w)"
  by (auto simp: stop_cancelled split: option.split)

lemma stop_twice: "tab (exec (stop i) (exec (stop i) w)) = tab (exec (stop i) w)"
  "cancelled (exec (stop i) (exec (stop i) w)) = cancelled (exec (stop i) w)"
  by (simp_all add: stop_tab stop_cancelled)

end

definition watch_ctx :: "'o world \<Rightarrow> string \<Rightarrow> ctx option" where
  "watch_ctx w i = map_option wrCtx (watches w i)"

interpretation watching: ctx_table watch_ctx stopWatch
  by unfold_locales (auto simp: watch_ctx_def exec_stopWatch split: option.split)

interpretation walking: ctx_table warming stopWarm
  by unfold_locales (simp_all add: exec_stopWarm split: option.split)

section \<open>Invariants\<close>

definition entry_ok :: "string \<Rightarrow> stagedVolume \<Rightarrow> bool" where
  "entry_ok i v \<longleftrightarrow> svVolumeID v = i \<and> volume_ok v \<and>
     sorted (svPublishes v) \<and> distinct (svPublishes v) \<and> distinct (svDead v) \<and> '''' \<notin> set (svDead v)"

definition vols_inv :: "'o world \<Rightarrow> bool" where
  "vols_inv w \<longleftrightarrow> finite (dom (vols w)) \<and> (\<forall>i v. vols w i = Some v \<longrightarrow> entry_ok i v)"

text \<open>
  Every context is younger than \<open>nextCtx\<close>; no two entries of the tables share one, and none of
  theirs is cancelled; and a goroutine whose context is not cancelled is the one its volume's
  table names.
\<close>

definition ctx_fresh :: "'o world \<Rightarrow> bool" where
  "ctx_fresh w \<longleftrightarrow> (\<forall>c \<in> cancelled w. c < nextCtx w) \<and>
     (\<forall>i r. watches w i = Some r \<longrightarrow> wrVolumeID r = i \<and> wrCtx r < nextCtx w \<and> wrCtx r \<notin> cancelled w) \<and>
     (\<forall>i c. warming w i = Some c \<longrightarrow> c < nextCtx w \<and> c \<notin> cancelled w)"

definition ctx_apart :: "'o world \<Rightarrow> bool" where
  "ctx_apart w \<longleftrightarrow>
     (\<forall>i j r r'. watches w i = Some r \<and> watches w j = Some r' \<and> wrCtx r = wrCtx r' \<longrightarrow> i = j) \<and>
     (\<forall>i j c. warming w i = Some c \<and> warming w j = Some c \<longrightarrow> i = j) \<and>
     (\<forall>i j r. watches w i = Some r \<longrightarrow> warming w j \<noteq> Some (wrCtx r))"

fun task_owned :: "'o world \<Rightarrow> task \<Rightarrow> bool" where
  "task_owned w (WatchRun r vc se) \<longleftrightarrow> wrCtx r \<in> cancelled w \<or> watches w (wrVolumeID r) = Some r"
| "task_owned w (WarmUp c ps) \<longleftrightarrow> c \<in> cancelled w \<or> (\<exists>i. warming w i = Some c)"

definition ctx_inv :: "'o world \<Rightarrow> bool" where
  "ctx_inv w \<longleftrightarrow> ctx_fresh w \<and> ctx_apart w \<and> (\<forall>t \<in> set (spawned w). task_owned w t)"

definition sup_inv :: "'o world \<Rightarrow> bool" where
  "sup_inv w \<longleftrightarrow> vols_inv w \<and> ctx_inv w"

lemma ctx_inv_same: "same_tasks w w' \<Longrightarrow> ctx_inv w \<Longrightarrow> ctx_inv w'"
proof -
  assume s: "same_tasks w w'" and i: "ctx_inv w"
  have "task_owned w' t" if "task_owned w t" for t
    using that s by (cases t) (simp_all add: same_tasks_def)
  with s i show ?thesis by (simp add: ctx_inv_def ctx_fresh_def ctx_apart_def same_tasks_def)
qed

lemma task_owned_weaken:
  assumes "task_owned w t" "cancelled w \<subseteq> cancelled w'"
    and "\<And>i r. watches w i = Some r \<Longrightarrow> watches w' i = Some r \<or> wrCtx r \<in> cancelled w'"
    and "\<And>i c. warming w i = Some c \<Longrightarrow> warming w' i = Some c \<or> c \<in> cancelled w'"
  shows "task_owned w' t"
  using assms by (cases t) (auto, blast+)

section \<open>Every operation keeps them\<close>

lemma ctx_inv_stopWatch: "ctx_inv w \<Longrightarrow> ctx_inv (exec (stopWatch i) w)"
proof -
  assume inv: "ctx_inv w"
  let ?w = "exec (stopWatch i) w"
  have "ctx_fresh ?w" "ctx_apart ?w"
    using inv unfolding ctx_inv_def ctx_fresh_def ctx_apart_def
    by (auto simp: exec_stopWatch split: option.splits)
  moreover have "task_owned ?w t" if "t \<in> set (spawned w)" for t
    by (rule task_owned_weaken[of w]) (use that inv in \<open>auto simp: ctx_inv_def exec_stopWatch split: option.splits\<close>)
  ultimately show ?thesis by (simp add: ctx_inv_def watching.stop_rest)
qed

lemma ctx_inv_stopWarm: "ctx_inv w \<Longrightarrow> ctx_inv (exec (stopWarm i) w)"
proof -
  assume inv: "ctx_inv w"
  let ?w = "exec (stopWarm i) w"
  have "ctx_fresh ?w" "ctx_apart ?w"
    using inv unfolding ctx_inv_def ctx_fresh_def ctx_apart_def
    by (auto simp: exec_stopWarm split: option.splits)
  moreover have "task_owned ?w t" if "t \<in> set (spawned w)" for t
    by (rule task_owned_weaken[of w]) (use that inv in \<open>auto simp: ctx_inv_def exec_stopWarm split: option.splits\<close>)
  ultimately show ?thesis by (simp add: ctx_inv_def walking.stop_rest)
qed

lemma next_unused:
  "ctx_fresh w \<Longrightarrow> watches w i \<noteq> Some r \<or> wrCtx r \<noteq> nextCtx w"
  "ctx_fresh w \<Longrightarrow> warming w i \<noteq> Some (nextCtx w)"
  "ctx_fresh w \<Longrightarrow> nextCtx w \<notin> cancelled w"
  unfolding ctx_fresh_def by (metis less_irrefl)+

text \<open>Starting a watch is stopping the one there is and entering a new one.\<close>

lemma ctx_inv_enter_watch:
  assumes "ctx_inv w" "watches w i = None" "wrVolumeID r = i" "wrCtx r = nextCtx w"
  shows "ctx_inv (w\<lparr>watches := (watches w)(i \<mapsto> r), nextCtx := Suc (nextCtx w),
    spawned := spawned w @ [WatchRun r vc se]\<rparr>)" (is "ctx_inv ?w")
proof -
  have fresh: "ctx_fresh w" and apart: "ctx_apart w" using assms(1) by (simp_all add: ctx_inv_def)
  have "ctx_fresh ?w"
    using fresh assms(3,4) next_unused[OF fresh] by (auto simp: ctx_fresh_def less_Suc_eq)
  moreover have "ctx_apart ?w"
    using apart assms(4) next_unused[OF fresh] unfolding ctx_apart_def by (auto, metis+)
  moreover have "task_owned ?w t" if "t \<in> set (spawned w)" for t
    by (rule task_owned_weaken[of w]) (use that assms in \<open>auto simp: ctx_inv_def\<close>)
  ultimately show ?thesis using assms(3) by (simp add: ctx_inv_def)
qed

lemma ctx_inv_startWatch: "ctx_inv w \<Longrightarrow> ctx_inv (exec (startWatch i) w)"
proof (cases "vols w i")
  case (Some v)
  assume "ctx_inv w"
  then have "ctx_inv (exec (stopWatch i) w)" by (rule ctx_inv_stopWatch)
  then have "ctx_inv ((exec (stopWatch i) w)\<lparr>watches := (watches w)(i \<mapsto> new_watch i v (nextCtx w)),
      nextCtx := Suc (nextCtx w),
      spawned := spawned w @ [WatchRun (new_watch i v (nextCtx w)) (svVolumeContext v) (svSecrets v)]\<rparr>)"
    using ctx_inv_enter_watch[of "exec (stopWatch i) w" i] by (simp add: exec_stopWatch new_watch_def)
  moreover have "exec (startWatch i) w = (exec (stopWatch i) w)\<lparr>watches := (watches w)(i \<mapsto> new_watch i v (nextCtx w)),
      nextCtx := Suc (nextCtx w),
      spawned := spawned w @ [WatchRun (new_watch i v (nextCtx w)) (svVolumeContext v) (svSecrets v)]\<rparr>"
    by (simp add: exec_startWatch exec_stopWatch Some)
  ultimately show ?thesis by simp
qed (simp add: exec_startWatch)

lemma ctx_inv_warm: "ctx_inv w \<Longrightarrow> ctx_inv (exec (warm i ps) w)"
proof (cases "vols w i = None")
  case False
  assume inv: "ctx_inv w"
  show ?thesis
  proof (cases "warming w i")
    case None
    let ?w = "exec (warm i ps) w"
    have fresh: "ctx_fresh w" and apart: "ctx_apart w" using inv by (simp_all add: ctx_inv_def)
    have "ctx_fresh ?w"
      using fresh False None next_unused[OF fresh] by (auto simp: ctx_fresh_def exec_warm less_Suc_eq)
    moreover have "ctx_apart ?w"
      using apart False None next_unused[OF fresh] unfolding ctx_apart_def by (auto simp: exec_warm, metis+)
    moreover have "task_owned ?w t" if "t \<in> set (spawned w)" for t
      by (rule task_owned_weaken[of w]) (use that inv False None in \<open>auto simp: ctx_inv_def exec_warm\<close>)
    ultimately show ?thesis using False None by (auto simp: ctx_inv_def exec_warm)
  next
    case (Some c)
    have "task_owned (exec (warm i ps) w) t" if "t \<in> set (spawned w)" for t
      by (rule task_owned_weaken[of w]) (use that inv False Some in \<open>auto simp: ctx_inv_def exec_warm\<close>)
    with inv False Some show ?thesis
      by (auto simp: ctx_inv_def ctx_fresh_def ctx_apart_def exec_warm)
  qed
qed (simp add: exec_warm)

lemma entry_upd:
  "vols_inv w \<Longrightarrow> entry_ok i v \<Longrightarrow> vols w' = (vols w)(i \<mapsto> v) \<Longrightarrow> vols_inv w'"
  by (auto simp: vols_inv_def)

lemma vols_inv_same: "vols_inv w \<Longrightarrow> vols w' = vols w \<Longrightarrow> vols_inv w'"
  by (simp add: vols_inv_def)

lemma vols_inv_recordStage:
  assumes "vols_inv w" "finite (dom vc)" "finite (dom se)"
  shows "vols_inv (exec (recordStage p i sp vc se rw) w)"
  by (rule entry_upd[OF assms(1) _ vols_recordStage])
    (use assms in \<open>auto simp: vols_inv_def entry_ok_def volume_ok_def split: option.split\<close>)

lemma vols_inv_dropVolume: "vols_inv w \<Longrightarrow> vols_inv (exec (dropVolume p i) w)"
  by (auto simp: vols_inv_def vols_dropVolume)

lemma vols_inv_lists:
  assumes "vols_inv w"
  shows "vols_inv (exec (recordPublish p i t) w)" "vols_inv (exec (forgetPublish p i t) w)"
    "vols_inv (exec (markDead p i d) w)"
proof -
  have ok: "entry_ok i v" if "vols w i = Some v" for v using assms that by (simp add: vols_inv_def)
  show "vols_inv (exec (recordPublish p i t) w)"
  proof (cases "vols w i")
    case (Some v)
    from ok[OF this] have "entry_ok i (v\<lparr>svPublishes := add_publish t (svPublishes v)\<rparr>)"
      by (auto simp: entry_ok_def volume_ok_def publishes.distinct_add) (simp add: add_publish_def)
    then show ?thesis by (rule entry_upd[OF assms]) (simp add: vols_recordPublish Some)
  qed (rule vols_inv_same[OF assms], simp add: vols_recordPublish)
  show "vols_inv (exec (forgetPublish p i t) w)"
  proof (cases "vols w i")
    case (Some v)
    from ok[OF this] have "entry_ok i (v\<lparr>svPublishes := remove_publish t (svPublishes v)\<rparr>)"
      using sorted_filter[of id] by (auto simp: entry_ok_def volume_ok_def remove_publish_def)
    then show ?thesis by (rule entry_upd[OF assms]) (simp add: vols_forgetPublish Some)
  qed (rule vols_inv_same[OF assms], simp add: vols_forgetPublish)
  show "vols_inv (exec (markDead p i d) w)"
  proof (cases "d = '''' \<or> vols w i = None")
    case True
    then show ?thesis by (intro vols_inv_same[OF assms]) (auto simp: vols_markDead)
  next
    case False
    then obtain v where v: "vols w i = Some v" by auto
    from ok[OF v] False have "entry_ok i (v\<lparr>svDead := add_dead d (svDead v)\<rparr>)"
      by (auto simp: entry_ok_def volume_ok_def dead.distinct_add dead.set_add)
    then show ?thesis by (rule entry_upd[OF assms]) (use False v in \<open>simp add: vols_markDead\<close>)
  qed
qed

lemma vols_inv_sweepDead: "vols_inv w \<Longrightarrow> vols_inv (exec (sweepDead p keep) w)"
proof -
  assume inv: "vols_inv w"
  have "dom (vols (exec (sweepDead p keep) w)) = dom (vols w)" by (auto simp: vols_sweepDead)
  with inv show ?thesis
    by (auto simp: vols_inv_def vols_sweepDead entry_ok_def volume_ok_def)
qed

lemma vols_tasks:
  "vols (exec (startWatch i) w) = vols w" "vols (exec (stopWatch i) w) = vols w"
  "vols (exec (warm i ps) w) = vols w" "vols (exec (stopWarm i) w) = vols w"
  by (simp_all add: reg_simps split: option.split)

section \<open>Interleavings\<close>

text \<open>
  The goroutines of the plugin (requests, the health loop, watches, walks) interleave at their
  critical sections. A step is one such section, with any arguments, or any change of the
  outside; a context a request brings is a finite map.
\<close>

datatype section_op =
    RecordStage string path smap smap bool
  | DropVolume string
  | RecordPublish string path
  | ForgetPublish string path
  | MarkDead string string
  | SweepDead "string set"
  | StartWatch string
  | StopWatch string
  | Warm string "path list"
  | StopWarm string

fun run_section :: "'o plugin \<Rightarrow> section_op \<Rightarrow> ('o world, unit) state" where
  "run_section p (RecordStage i sp vc se rw) = recordStage p i sp vc se rw"
| "run_section p (DropVolume i) = dropVolume p i"
| "run_section p (RecordPublish i t) = recordPublish p i t"
| "run_section p (ForgetPublish i t) = forgetPublish p i t"
| "run_section p (MarkDead i d) = markDead p i d"
| "run_section p (SweepDead keep) = sweepDead p keep"
| "run_section p (StartWatch i) = startWatch i"
| "run_section p (StopWatch i) = stopWatch i"
| "run_section p (Warm i ps) = warm i ps"
| "run_section p (StopWarm i) = stopWarm i"

fun finite_args :: "section_op \<Rightarrow> bool" where
  "finite_args (RecordStage i sp vc se rw) \<longleftrightarrow> finite (dom vc) \<and> finite (dom se)"
| "finite_args _ \<longleftrightarrow> True"

inductive sup_step :: "'o plugin \<Rightarrow> 'o world \<Rightarrow> 'o world \<Rightarrow> bool" for p where
  section_step: "finite_args a \<Longrightarrow> sup_step p w (exec (run_section p a) w)"
| outside_step: "sup_step p w (w\<lparr>outside := s\<rparr>)"

inductive_cases sup_stepE: "sup_step p w w'"

lemma sup_inv_section: "finite_args a \<Longrightarrow> sup_inv w \<Longrightarrow> sup_inv (exec (run_section p a) w)"
  unfolding sup_inv_def
  by (cases a)
    (auto intro: ctx_inv_same[OF same_tasks_volumes(1)] ctx_inv_same[OF same_tasks_volumes(2)]
      ctx_inv_same[OF same_tasks_volumes(3)] ctx_inv_same[OF same_tasks_volumes(4)]
      ctx_inv_same[OF same_tasks_volumes(5)] ctx_inv_same[OF same_tasks_volumes(6)]
      ctx_inv_startWatch ctx_inv_stopWatch ctx_inv_warm ctx_inv_stopWarm
      vols_inv_recordStage vols_inv_dropVolume vols_inv_lists vols_inv_sweepDead
      elim: vols_inv_same simp: vols_tasks)

lemma sup_inv_step: "sup_step p w w' \<Longrightarrow> sup_inv w \<Longrightarrow> sup_inv w'"
proof (erule sup_stepE)
  fix s assume "sup_inv w" "w' = w\<lparr>outside := s\<rparr>"
  then show "sup_inv w'"
    using vols_inv_same[of w w'] ctx_inv_same[OF same_tasks_volumes(7), of w s] by (simp add: sup_inv_def)
qed (simp add: sup_inv_section)

lemma sup_inv_reachable: "(sup_step p)\<^sup>*\<^sup>* w w' \<Longrightarrow> sup_inv w \<Longrightarrow> sup_inv w'"
  by (induction rule: rtranclp_induct) (auto intro: sup_inv_step)

section \<open>Properties\<close>

text \<open>The plugin before it recovered or recorded anything.\<close>

definition start_world :: "'o \<Rightarrow> 'o world" where
  "start_world s = \<lparr>vols = Map.empty, warming = Map.empty, watches = Map.empty, nextCtx = 0,
     cancelled = {}, spawned = [], outside = s\<rparr>"

lemma start_inv: "sup_inv (start_world s)"
  by (simp add: sup_inv_def vols_inv_def ctx_inv_def ctx_fresh_def ctx_apart_def start_world_def)

lemma live_watch: "ctx_inv w \<Longrightarrow> WatchRun r vc se \<in> set (spawned w) \<Longrightarrow> wrCtx r \<notin> cancelled w \<Longrightarrow>
    watches w (wrVolumeID r) = Some r"
  by (auto simp: ctx_inv_def dest!: bspec)

lemma table_live:
  "ctx_inv w \<Longrightarrow> watches w i = Some r \<Longrightarrow> wrCtx r \<notin> cancelled w"
  "ctx_inv w \<Longrightarrow> warming w i = Some c \<Longrightarrow> c \<notin> cancelled w"
  unfolding ctx_inv_def ctx_fresh_def by blast+

text \<open>C7. However requests, the health loop, watches and walks interleave, the registry stays well
  formed: each volume is filed under its own ID, with sorted publish targets and no repeated or
  empty device; contexts are never shared or reused; and every goroutine that was not told to end
  is the one its volume's table names, so that no volume ever has two live watches.\<close>

theorem registry_invariant:
  assumes "(sup_step p)\<^sup>*\<^sup>* (start_world s) w"
  shows "sup_inv w \<and>
    (\<forall>r r' vc vc' se se'. WatchRun r vc se \<in> set (spawned w) \<and> WatchRun r' vc' se' \<in> set (spawned w) \<and>
       wrCtx r \<notin> cancelled w \<and> wrCtx r' \<notin> cancelled w \<and> wrVolumeID r = wrVolumeID r' \<longrightarrow> r = r')"
proof -
  have inv: "sup_inv w" by (rule sup_inv_reachable[OF assms start_inv])
  then have "ctx_inv w" by (simp add: sup_inv_def)
  with inv show ?thesis using live_watch[of w] by (metis option.inject)
qed

theorem registry_invariant_witness:
  "sup_inv (exec (run_section idle_plugin (StartWatch ''v''))
     (exec (run_section idle_plugin (RecordStage ''v'' ''/s'' Map.empty Map.empty True)) (start_world ())))"
proof -
  have "(sup_step idle_plugin)\<^sup>*\<^sup>* (start_world ()) (exec (run_section idle_plugin (StartWatch ''v''))
     (exec (run_section idle_plugin (RecordStage ''v'' ''/s'' Map.empty Map.empty True)) (start_world ())))"
    by (rule rtranclp.rtrancl_into_rtrancl[OF r_into_rtranclp]; rule section_step) simp_all
  from registry_invariant[OF this] show ?thesis by blast
qed

text \<open>C29. Unstaging a volume ends everything that runs for it: its entry, watch and walks are gone
  and every goroutine of them is told to end, while the other volumes keep theirs running.\<close>

theorem forget_stage_ends:
  assumes "sup_inv w" "w' = exec (forgetStage p i) w"
  shows "vols w' i = None \<and> watches w' i = None \<and> warming w' i = None \<and>
    (\<forall>r vc se. WatchRun r vc se \<in> set (spawned w') \<and> wrVolumeID r = i \<longrightarrow> wrCtx r \<in> cancelled w') \<and>
    (\<forall>c. warming w i = Some c \<longrightarrow> c \<in> cancelled w') \<and>
    (\<forall>j. j \<noteq> i \<longrightarrow> vols w' j = vols w j \<and> watches w' j = watches w j \<and> warming w' j = warming w j \<and>
       (\<forall>c. (watch_ctx w j = Some c \<or> warming w j = Some c) \<longrightarrow> c \<notin> cancelled w'))"
proof -
  have tasks: "same_tasks (exec (stopWarm i) (exec (stopWatch i) w)) w'"
    using same_tasks_volumes(2) by (simp add: assms(2) forgetStage_def)
  have inv: "ctx_inv w'"
    using assms(1) by (intro ctx_inv_same[OF tasks] ctx_inv_stopWarm ctx_inv_stopWatch) (simp add: sup_inv_def)
  have vols: "vols w' = (vols w)(i := None)" by (simp add: assms(2) forgetStage_def vols_dropVolume vols_tasks)
  have w': "watches w' = (watches w)(i := None)" "warming w' = (warming w)(i := None)"
    using tasks by (simp_all add: same_tasks_def exec_stopWatch exec_stopWarm)
  have ended: "c \<in> cancelled w'" if "warming w i = Some c" for c
    using tasks walking.stop_ends[of "exec (stopWatch i) w" i c] that by (simp add: same_tasks_def exec_stopWatch)
  have "wrCtx r \<in> cancelled w'" if "WatchRun r vc se \<in> set (spawned w')" "wrVolumeID r = i" for r vc se
    using live_watch[OF inv that(1)] that(2) w'(1) by auto
  moreover have "c \<notin> cancelled w'" if "j \<noteq> i" "watch_ctx w j = Some c \<or> warming w j = Some c" for j c
    using table_live[OF inv, of j] that w' by (auto simp: watch_ctx_def)
  ultimately show ?thesis using vols w' ended by auto
qed

definition sample_staged :: "unit world" where
  "sample_staged = exec (run_section idle_plugin (StartWatch ''v''))
     (exec (run_section idle_plugin (RecordStage ''v'' ''/s'' Map.empty Map.empty True)) (start_world ()))"

lemma sample_staged_inv: "sup_inv sample_staged"
  unfolding sample_staged_def by (intro sup_inv_section start_inv) simp_all

theorem forget_stage_ends_witness: "watches (exec (forgetStage idle_plugin ''v'') sample_staged) ''v'' = None"
  using forget_stage_ends[OF sample_staged_inv refl, of idle_plugin "''v''"] by blast

text \<open>Staging a volume again replaces its parameters but keeps its publish targets and dead
  devices, and a publish or unpublish changes only the set of targets of its own volume; none of
  them disturbs a watch or a walk, and a target of an unknown volume is not recorded.\<close>

theorem stage_publish_bookkeeping:
  "(\<exists>v. vols (exec (recordStage p i sp vc se rw) w) = (vols w)(i \<mapsto> v) \<and>
      svStagePath v = sp \<and> svVolumeContext v = vc \<and> svSecrets v = se \<and> svRewarm v = rw \<and>
      (svPublishes v, svDead v) = (case vols w i of None \<Rightarrow> ([], []) | Some old \<Rightarrow> (svPublishes old, svDead old))) \<and>
   (\<forall>j. map_option (set \<circ> svPublishes) (vols (exec (recordPublish p i t) w) j) =
      map_option (\<lambda>v. (if j = i then insert t else id) (set (svPublishes v))) (vols w j)) \<and>
   (\<forall>j. map_option (set \<circ> svPublishes) (vols (exec (forgetPublish p i t) w) j) =
      map_option (\<lambda>v. (if j = i then (\<lambda>S. S - {t}) else id) (set (svPublishes v))) (vols w j)) \<and>
   same_tasks w (exec (recordStage p i sp vc se rw) w) \<and> same_tasks w (exec (recordPublish p i t) w) \<and>
   same_tasks w (exec (forgetPublish p i t) w)"
  by (auto simp: reg_simps same_tasks_volumes publishes.set_add remove_publish_def comp_def
      split: option.split intro!: option.map_cong)



end
