(* ===== verification/Graft.thy ===== *)
theory Graft
  imports Mountinfo SupState
begin

text \<open>
  Dead mounts (pkg/driver/graft.go, with the statfs probe and the lazy unmount of supervisor.go):
  telling a dead endpoint from a healthy one, the device of a mount, the mounts other mount
  namespaces hold of a dead device, and grafting a healed staging mount over them with the helper
  nsmount-heal. What is forgotten at the end is \<open>sweepDead\<close> of theory SupState.
\<close>

section \<open>Endpoints\<close>

text \<open>\<open>(dead, gone)\<close> of a mountpoint.\<close>

definition mountDead :: "'o os \<Rightarrow> path \<Rightarrow> ('o, bool \<times> bool) state" where
  "mountDead os p = do {
     e \<leftarrow> os_Statfs os p;
     State_Monad.return
       (case e of
          None \<Rightarrow> (False, False)
        | Some n \<Rightarrow>
            if n = ENOENT then (False, True)
            else if n = ENOTCONN \<or> n = EIO \<or> n = ECONNABORTED then (True, False)
            else (False, False))
   }"

definition lazyUnmount :: "'o os \<Rightarrow> path \<Rightarrow> ('o, unit) state" where
  "lazyUnmount os p = do { _ \<leftarrow> os_DetachUnmount os p; State_Monad.return () }"

definition mountDevice :: "'o os \<Rightarrow> path \<Rightarrow> path \<Rightarrow> ('o, string) state" where
  "mountDevice os mountinfo p = do {
     b \<leftarrow> os_ReadFile os mountinfo;
     State_Monad.return (case b of Inl e \<Rightarrow> '''' | Inr text \<Rightarrow> device_of (parseMountinfo text) p)
   }"

definition deadMountDevice :: "'o os \<Rightarrow> path \<Rightarrow> ('o, string) state" where
  "deadMountDevice os p = do {
     (dead, gone) \<leftarrow> mountDead os p;
     if \<not> dead then State_Monad.return '''' else mountDevice os ''/proc/self/mountinfo'' p
   }"

section \<open>Holders\<close>

record holder =
  hPid :: int
  hEntry :: mountEntry

definition ns_path :: "path \<Rightarrow> string \<Rightarrow> path" where
  "ns_path proc p = path_join [proc, p, ''ns'', ''mnt'']"

definition info_path :: "path \<Rightarrow> string \<Rightarrow> path" where
  "info_path proc p = path_join [proc, p, ''mountinfo'']"

definition dead_fuse :: "string set \<Rightarrow> mountEntry \<Rightarrow> bool" where
  "dead_fuse dead m \<longleftrightarrow> me_dev m \<in> dead \<and> prefix ''fuse'' (me_fstype m)"

text \<open>The loop over the processes; \<open>seen\<close> are the namespaces one has spoken for.\<close>

fun holders_from :: "'o os \<Rightarrow> path \<Rightarrow> string set \<Rightarrow> string set \<Rightarrow> string list \<Rightarrow> ('o, holder list) state" where
  "holders_from os proc dead seen [] = State_Monad.return []"
| "holders_from os proc dead seen (e # es) =
     (case atoi e of
        None \<Rightarrow> holders_from os proc dead seen es
      | Some pid \<Rightarrow> do {
          ns \<leftarrow> os_Readlink os (ns_path proc e);
          case ns of
            None \<Rightarrow> holders_from os proc dead seen es
          | Some n \<Rightarrow>
              if n \<in> seen then holders_from os proc dead seen es
              else do {
                b \<leftarrow> os_ReadFile os (info_path proc e);
                case b of
                  Inl _ \<Rightarrow> holders_from os proc dead seen es
                | Inr text \<Rightarrow> do {
                    out \<leftarrow> holders_from os proc dead (insert n seen) es;
                    State_Monad.return (map (\<lambda>m. \<lparr>hPid = pid, hEntry = m\<rparr>)
                      (filter (dead_fuse dead) (parseMountinfo text)) @ out)
                  }
              }
        })"

definition findHolders :: "'o os \<Rightarrow> path \<Rightarrow> string set \<Rightarrow> ('o, holder list) state" where
  "findHolders os proc dead = do {
     seen \<leftarrow> collect_m (\<lambda>p. os_Readlink os (ns_path proc p)) [''self'', ''1''];
     entries \<leftarrow> os_ReadDir os proc;
     case entries of
       None \<Rightarrow> State_Monad.return []
     | Some es \<Rightarrow> holders_from os proc dead (set seen) (map fst es)
   }"

section \<open>Grafting\<close>

definition nsmountHeal :: path where "nsmountHeal = ''/usr/bin/nsmount-heal''"

definition graft_args :: "smap \<Rightarrow> holder \<Rightarrow> string list" where
  "graft_args stage h =
     (let m = hEntry h; f = graftFlags (me_opts m) in
      [show_int (hPid h), path_join [mget stage (me_dev m), me_root m], me_mountPoint m]
        @ (if f \<noteq> '''' then [f] else []))"

text \<open>The device, if the staging mount that replaces it is dead itself.\<close>

definition still_dead :: "'o os \<Rightarrow> smap \<Rightarrow> string \<Rightarrow> ('o, string option) state" where
  "still_dead os stage d = do {
     (dead, gone) \<leftarrow> mountDead os (mget stage d);
     State_Monad.return (if dead then Some d else None)
   }"

fun graft_all :: "'o os \<Rightarrow> smap \<Rightarrow> string set \<Rightarrow> holder list \<Rightarrow> ('o, string set) state" where
  "graft_all os stage keep [] = State_Monad.return keep"
| "graft_all os stage keep (h # hs) =
     (if me_dev (hEntry h) \<in> keep then graft_all os stage keep hs
      else do {
        (out, ok) \<leftarrow> os_Run os nsmountHeal (graft_args stage h) [];
        graft_all os stage (if ok then keep else insert (me_dev (hEntry h)) keep) hs
      })"

text \<open>The devices whose staging mount is dead.\<close>

definition still_deads :: "'o os \<Rightarrow> smap \<Rightarrow> ('o, string list) state" where
  "still_deads os stage = do {
     devs \<leftarrow> rt_range os (dom stage);
     collect_m (still_dead os stage) devs
   }"

text \<open>What happens with the lock released: the devices to keep, if there was anything to do.\<close>

definition graft_round :: "'o os \<Rightarrow> smap \<Rightarrow> ('o, string set option) state" where
  "graft_round os stage =
     (if dom stage = {} then State_Monad.return None
      else do {
        st \<leftarrow> os_Stat os nsmountHeal;
        case st of
          Inl _ \<Rightarrow> State_Monad.return None
        | Inr _ \<Rightarrow> do {
            still \<leftarrow> still_deads os stage;
            hs \<leftarrow> findHolders os ''/proc'' (dom stage);
            keep \<leftarrow> graft_all os stage (set still) hs;
            State_Monad.return (Some keep)
          }
      })"

text \<open>The dead devices and the staging path that replaces each; a later volume overwrites.\<close>

definition dead_pairs :: "(string \<rightharpoonup> stagedVolume) \<Rightarrow> string list \<Rightarrow> (string \<times> path) list" where
  "dead_pairs vs ids = concat (map (\<lambda>i. map (\<lambda>d. (d, svStagePath (the (vs i)))) (svDead (the (vs i)))) ids)"

definition dead_stages :: "'o os \<Rightarrow> ('o world, smap) state" where
  "dead_stages os = do {
     w \<leftarrow> State_Monad.get;
     ids \<leftarrow> outside_m (rt_range os (dom (vols w)));
     State_Monad.return (map_of (rev (dead_pairs (vols w) ids)))
   }"

definition graftHolders :: "'o plugin \<Rightarrow> ('o world, unit) state" where
  "graftHolders p = do {
     stage \<leftarrow> dead_stages (pOS p);
     r \<leftarrow> outside_m (graft_round (pOS p) stage);
     case r of
       None \<Rightarrow> State_Monad.return ()
     | Some keep \<Rightarrow> sweepDead p keep
   }"

section \<open>What the search finds\<close>

text \<open>Reading links, files and directories of /proc changes nothing.\<close>

definition reads_doc :: "'o os \<Rightarrow> bool" where
  "reads_doc os \<longleftrightarrow> (\<forall>p s. exec (os_Readlink os p) s = s) \<and> (\<forall>p s. exec (os_ReadFile os p) s = s) \<and>
     (\<forall>p s. exec (os_ReadDir os p) s = s)"

lemma reads_doc_simps:
  assumes "reads_doc os"
  shows "exec (os_Readlink os p) s = s" "exec (os_ReadFile os p) s = s" "exec (os_ReadDir os p) s = s"
  using assms by (simp_all add: reads_doc_def)

text \<open>A process that can speak for its mount namespace, and the namespaces that are the plugin's own.\<close>

definition speaker :: "'o os \<Rightarrow> path \<Rightarrow> 'o \<Rightarrow> string \<Rightarrow> int \<Rightarrow> string \<Rightarrow> string \<Rightarrow> bool" where
  "speaker os proc s e pid n b \<longleftrightarrow> atoi e = Some pid \<and> val_of (os_Readlink os (ns_path proc e)) s = Some n \<and>
     val_of (os_ReadFile os (info_path proc e)) s = Inr b"

definition own_namespace :: "'o os \<Rightarrow> path \<Rightarrow> 'o \<Rightarrow> string \<Rightarrow> bool" where
  "own_namespace os proc s n \<longleftrightarrow> (\<exists>p \<in> {''self'', ''1''}. val_of (os_Readlink os (ns_path proc p)) s = Some n)"

lemma holders_dead: "h \<in> set (val_of (holders_from os proc dead seen es) s) \<Longrightarrow> dead_fuse dead (hEntry h)"
  by (induction es arbitrary: seen s) (auto split: option.splits if_splits sum.splits)

lemma found_dead: "h \<in> set (val_of (findHolders os proc dead) s) \<Longrightarrow> dead_fuse dead (hEntry h)"
  by (auto simp: findHolders_def dest: holders_dead split: option.splits)

lemma holders_from_sound:
  assumes "reads_doc os" "h \<in> set (val_of (holders_from os proc dead seen es) s)"
  shows "\<exists>e n b. e \<in> set es \<and> speaker os proc s e (hPid h) n b \<and> n \<notin> seen \<and> hEntry h \<in> set (parseMountinfo b)"
  using assms(2)
proof (induction es arbitrary: seen)
  case (Cons e es)
  note r = reads_doc_simps[OF assms(1)]
  show ?case
  proof (cases "\<exists>pid n b. speaker os proc s e pid n b \<and> n \<notin> seen")
    case True
    then obtain pid n b where sp: "speaker os proc s e pid n b" "n \<notin> seen" by blast
    then consider "h \<in> set (map (\<lambda>m. \<lparr>hPid = pid, hEntry = m\<rparr>) (filter (dead_fuse dead) (parseMountinfo b)))"
      | "h \<in> set (val_of (holders_from os proc dead (insert n seen) es) s)"
      using Cons.prems by (auto simp: speaker_def r)
    then show ?thesis
    proof cases
      case 1
      then show ?thesis using sp by (intro exI[of _ e] exI[of _ n] exI[of _ b]) auto
    next
      case 2
      from Cons.IH[OF this] show ?thesis by auto
    qed
  next
    case False
    then have "h \<in> set (val_of (holders_from os proc dead seen es) s)"
      using Cons.prems by (auto simp: speaker_def r split: option.splits if_splits sum.splits)
    from Cons.IH[OF this] show ?thesis by auto
  qed
qed simp

lemma holders_from_complete:
  assumes "reads_doc os" "e \<in> set es" "speaker os proc s e pid n b" "n \<notin> seen"
  shows "\<exists>e' pid' b'. e' \<in> set es \<and> speaker os proc s e' pid' n b' \<and>
    (\<forall>m \<in> set (parseMountinfo b'). dead_fuse dead m \<longrightarrow>
       \<lparr>hPid = pid', hEntry = m\<rparr> \<in> set (val_of (holders_from os proc dead seen es) s))"
  using assms(2,4)
proof (induction es arbitrary: seen)
  case (Cons f es)
  note r = reads_doc_simps[OF assms(1)]
  show ?case
  proof (cases "\<exists>pid n b. speaker os proc s f pid n b \<and> n \<notin> seen")
    case True
    then obtain pid2 n2 b2 where sp: "speaker os proc s f pid2 n2 b2" "n2 \<notin> seen" by blast
    then have out: "val_of (holders_from os proc dead seen (f # es)) s =
        map (\<lambda>m. \<lparr>hPid = pid2, hEntry = m\<rparr>) (filter (dead_fuse dead) (parseMountinfo b2)) @
        val_of (holders_from os proc dead (insert n2 seen) es) s"
      by (simp add: speaker_def r)
    show ?thesis
    proof (cases "n2 = n")
      case True
      with sp out show ?thesis by (intro exI[of _ f] exI[of _ pid2] exI[of _ b2]) auto
    next
      case False
      then have "e \<noteq> f" using sp(1) assms(3) by (auto simp: speaker_def)
      with Cons.prems have e: "e \<in> set es" by simp
      have "n \<notin> insert n2 seen" using False Cons.prems(2) by simp
      from Cons.IH[OF e this] show ?thesis
        unfolding out set_append by (meson UnI2 list.set_intros(2))
    qed
  next
    case False
    then have "e \<noteq> f" using assms(3) Cons.prems(2) by blast
    with Cons.prems have e: "e \<in> set es" by simp
    have "val_of (holders_from os proc dead seen (f # es)) s = val_of (holders_from os proc dead seen es) s"
      using False by (auto simp: speaker_def r split: option.split sum.split)
    with Cons.IH[OF e Cons.prems(2)] show ?thesis by auto
  qed
qed simp

lemma findHolders_from:
  assumes "reads_doc os" "val_of (os_ReadDir os proc) s = Some entries"
  shows "\<exists>seen. (\<forall>n. n \<in> seen \<longleftrightarrow> own_namespace os proc s n) \<and>
    val_of (findHolders os proc dead) s = val_of (holders_from os proc dead seen (map fst entries)) s"
proof -
  let ?seen = "set (val_of (collect_m (\<lambda>p. os_Readlink os (ns_path proc p)) [''self'', ''1'']) s)"
  have "n \<in> ?seen \<longleftrightarrow> own_namespace os proc s n" for n
    by (auto simp: own_namespace_def reads_doc_simps[OF assms(1)] split: option.splits)
  moreover have "val_of (findHolders os proc dead) s = val_of (holders_from os proc dead ?seen (map fst entries)) s"
    using assms(2) by (simp add: findHolders_def reads_doc_simps[OF assms(1)])
  ultimately show ?thesis by blast
qed

section \<open>What a round keeps\<close>

text \<open>The grafts made: a run of the helper that succeeds is one more.\<close>

definition graft_doc :: "'o os \<Rightarrow> ('o \<Rightarrow> string list set) \<Rightarrow> bool" where
  "graft_doc os grafts \<longleftrightarrow> (\<forall>args s. grafts (exec (os_Run os nsmountHeal args []) s) =
     (if snd (val_of (os_Run os nsmountHeal args []) s) then insert args (grafts s) else grafts s))"

lemma graft_all_keep:
  "keep \<subseteq> val_of (graft_all os stage keep hs) s \<and>
   val_of (graft_all os stage keep hs) s \<subseteq> keep \<union> (\<lambda>h. me_dev (hEntry h)) ` set hs"
proof (induction hs arbitrary: keep s)
  case (Cons h hs)
  let ?r = "os_Run os nsmountHeal (graft_args stage h) []"
  show ?case
    using Cons.IH[of keep s] Cons.IH[of keep "exec ?r s"] Cons.IH[of "insert (me_dev (hEntry h)) keep" "exec ?r s"]
    by (auto split: prod.split)
qed simp

lemma graft_all_grafts:
  assumes "graft_doc os grafts"
  shows "grafts s \<subseteq> grafts (exec (graft_all os stage keep hs) s) \<and>
    (\<forall>h \<in> set hs. me_dev (hEntry h) \<notin> val_of (graft_all os stage keep hs) s \<longrightarrow>
       graft_args stage h \<in> grafts (exec (graft_all os stage keep hs) s))"
proof (induction hs arbitrary: keep s)
  case (Cons h hs)
  let ?r = "os_Run os nsmountHeal (graft_args stage h) []"
  obtain out ok where r: "val_of ?r s = (out, ok)" by fastforce
  have g: "grafts (exec ?r s) = (if ok then insert (graft_args stage h) (grafts s) else grafts s)"
    using assms r by (simp add: graft_doc_def)
  show ?case
  proof (cases "me_dev (hEntry h) \<in> keep")
    case True
    then have "me_dev (hEntry h) \<in> val_of (graft_all os stage keep hs) s"
      using graft_all_keep[of keep os stage hs s] by auto
    with True Cons.IH[of s keep] show ?thesis by auto
  next
    case False
    show ?thesis
    proof (cases ok)
      case True
      with False g r Cons.IH[of "exec ?r s" keep] show ?thesis by auto
    next
      case bad: False
      have "me_dev (hEntry h) \<in> val_of (graft_all os stage (insert (me_dev (hEntry h)) keep) hs) (exec ?r s)"
        using graft_all_keep[THEN conjunct1, THEN subsetD, OF insertI1] .
      with False bad g r Cons.IH[of "exec ?r s" "insert (me_dev (hEntry h)) keep"] show ?thesis by auto
    qed
  qed
qed simp

lemma collected_step:
  "R \<subseteq> A \<and> (\<forall>x \<in> A - R. P x) \<Longrightarrow> (\<not> b \<Longrightarrow> P d) \<Longrightarrow>
    (if b then insert d R else R) \<subseteq> insert d A \<and> (\<forall>x \<in> insert d A - (if b then insert d R else R). P x)"
  by auto

lemma still_dead_collect:
  "set (val_of (collect_m (still_dead os stage) devs) s) \<subseteq> set devs \<and>
   (\<forall>d \<in> set devs - set (val_of (collect_m (still_dead os stage) devs) s).
      \<exists>t. \<not> fst (val_of (mountDead os (mget stage d)) t))"
proof (induction devs arbitrary: s)
  case (Cons d devs)
  let ?rest = "set (val_of (collect_m (still_dead os stage) devs) (exec (still_dead os stage d) s))"
  have rest: "set (val_of (collect_m (still_dead os stage) (d # devs)) s) =
      (if fst (val_of (mountDead os (mget stage d)) s) then insert d ?rest else ?rest)"
    by (simp add: still_dead_def split: prod.split)
  show ?case
    unfolding rest list.set(2) by (rule collected_step[OF Cons.IH]) blast
qed simp

lemma still_deads_within:
  assumes "range_doc os" "finite (dom stage)"
  shows "set (val_of (still_deads os stage) s) \<subseteq> dom stage"
    and "d \<in> dom stage \<Longrightarrow> d \<notin> set (val_of (still_deads os stage) s) \<Longrightarrow>
      \<exists>t. \<not> fst (val_of (mountDead os (mget stage d)) t)"
  using still_dead_collect[of os stage "val_of (rt_range os (dom stage)) s" "exec (rt_range os (dom stage)) s"] assms
  by (auto simp: still_deads_def range_doc_def)

text \<open>What the search of a round found, and what the round made of it.\<close>

definition probed :: "'o os \<Rightarrow> smap \<Rightarrow> 'o \<Rightarrow> 'o" where
  "probed os stage s = exec (still_deads os stage) (exec (os_Stat os nsmountHeal) s)"

definition round_holders :: "'o os \<Rightarrow> smap \<Rightarrow> 'o \<Rightarrow> holder list" where
  "round_holders os stage s = val_of (findHolders os ''/proc'' (dom stage)) (probed os stage s)"

lemma graft_round_Some:
  assumes "val_of (graft_round os stage) s = Some keep"
  obtains t still where "still = set (val_of (still_deads os stage) (exec (os_Stat os nsmountHeal) s))"
    and "keep = val_of (graft_all os stage still (round_holders os stage s)) t"
    and "exec (graft_round os stage) s = exec (graft_all os stage still (round_holders os stage s)) t"
  using assms by (auto simp: graft_round_def round_holders_def probed_def intro!: that split: if_splits sum.splits)

lemma graft_round_within:
  assumes "range_doc os" "finite (dom stage)" "val_of (graft_round os stage) s = Some keep"
  shows "keep \<subseteq> dom stage"
proof -
  from graft_round_Some[OF assms(3)] obtain t where
    keep: "keep = val_of (graft_all os stage (set (val_of (still_deads os stage) (exec (os_Stat os nsmountHeal) s)))
      (round_holders os stage s)) t" by metis
  have "me_dev (hEntry h) \<in> dom stage" if "h \<in> set (round_holders os stage s)" for h
    using found_dead[OF that[unfolded round_holders_def]] by (simp add: dead_fuse_def)
  then have "(\<lambda>h. me_dev (hEntry h)) ` set (round_holders os stage s) \<subseteq> dom stage" by (rule image_subsetI)
  with still_deads_within(1)[OF assms(1,2), of "exec (os_Stat os nsmountHeal) s"] show ?thesis
    unfolding keep by (rule order_trans[OF graft_all_keep[THEN conjunct2] Un_least])
qed

section \<open>Properties\<close>

text \<open>C27. The search speaks for every mount namespace but the plugin's own and the node's. Each mount
  found is a FUSE mount of a dead device, read through a process of such a namespace; and for every
  process of such a namespace that could be read there is one of the same namespace, itself or
  another, all of whose mounts of dead devices are found.\<close>

theorem holders_exact:
  assumes "reads_doc os" "val_of (os_ReadDir os proc) s = Some entries"
  shows "(\<forall>h \<in> set (val_of (findHolders os proc dead) s). dead_fuse dead (hEntry h) \<and>
      (\<exists>e n b. e \<in> fst ` set entries \<and> speaker os proc s e (hPid h) n b \<and> \<not> own_namespace os proc s n \<and>
         hEntry h \<in> set (parseMountinfo b))) \<and>
    (\<forall>e pid n b. e \<in> fst ` set entries \<and> speaker os proc s e pid n b \<and> \<not> own_namespace os proc s n \<longrightarrow>
      (\<exists>e' pid' b'. speaker os proc s e' pid' n b' \<and> (\<forall>m \<in> set (parseMountinfo b'). dead_fuse dead m \<longrightarrow>
        \<lparr>hPid = pid', hEntry = m\<rparr> \<in> set (val_of (findHolders os proc dead) s))))"
proof -
  from findHolders_from[OF assms] obtain seen where seen: "\<And>n. n \<in> seen \<longleftrightarrow> own_namespace os proc s n"
    "val_of (findHolders os proc dead) s = val_of (holders_from os proc dead seen (map fst entries)) s" by blast
  have sound: "\<exists>e n b. e \<in> fst ` set entries \<and> speaker os proc s e (hPid h) n b \<and> \<not> own_namespace os proc s n \<and>
      hEntry h \<in> set (parseMountinfo b)" if "h \<in> set (val_of (findHolders os proc dead) s)" for h
  proof -
    from holders_from_sound[OF assms(1) that[unfolded seen(2)]]
    show ?thesis unfolding seen(1) list.set_map .
  qed
  have complete: "\<exists>e' pid' b'. speaker os proc s e' pid' n b' \<and> (\<forall>m \<in> set (parseMountinfo b'). dead_fuse dead m \<longrightarrow>
        \<lparr>hPid = pid', hEntry = m\<rparr> \<in> set (val_of (findHolders os proc dead) s))"
    if "e \<in> fst ` set entries" "speaker os proc s e pid n b" "\<not> own_namespace os proc s n" for e pid n b
  proof -
    have "e \<in> set (map fst entries)" "n \<notin> seen" using that seen(1) by simp_all
    from holders_from_complete[OF assms(1) this(1) that(2) this(2), of dead]
    show ?thesis unfolding seen(2) by blast
  qed
  show ?thesis
  proof (intro conjI ballI allI impI)
    fix h assume h: "h \<in> set (val_of (findHolders os proc dead) s)"
    show "dead_fuse dead (hEntry h)" by (rule found_dead[OF h])
    show "\<exists>e n b. e \<in> fst ` set entries \<and> speaker os proc s e (hPid h) n b \<and> \<not> own_namespace os proc s n \<and>
      hEntry h \<in> set (parseMountinfo b)" by (rule sound[OF h])
  qed (elim conjE, rule complete)
qed

text \<open>A node with one container: process 7 has a namespace of its own.\<close>

definition node_os :: "unit os" where
  "node_os = idle_os\<lparr>
     os_Readlink := \<lambda>p. State_Monad.return
       (if p = ''/proc/7/ns/mnt'' then Some ''mnt:[7]''
        else if p = ''/proc/1/ns/mnt'' \<or> p = ''/proc/self/ns/mnt'' then Some ''mnt:[1]'' else None),
     os_ReadDir := \<lambda>p. State_Monad.return (Some [(''1'', True), (''7'', True), (''stat'', False)]),
     os_ReadFile := \<lambda>p. State_Monad.return (if p = ''/proc/7/mountinfo'' then Inr (show_mountinfo [sample_line])
        else Inl (ENOENT, ''no such file''))\<rparr>"

lemma node_reads: "reads_doc node_os"
  by (simp add: reads_doc_def node_os_def idle_os_def)

lemma node_paths:
  "ns_path ''/proc'' ''7'' = ''/proc/7/ns/mnt''" "info_path ''/proc'' ''7'' = ''/proc/7/mountinfo''"
  "ns_path ''/proc'' ''1'' = ''/proc/1/ns/mnt''" "ns_path ''/proc'' ''self'' = ''/proc/self/ns/mnt''"
  "atoi ''7'' = Some 7"
  by (simp_all add: ns_path_def info_path_def path_join_def path_clean_def rooted_def
      atoi_def parse_int64_def parse_uint_def digit_val_def max_int64_def)

lemma node_speaker: "speaker node_os ''/proc'' () ''7'' 7 ''mnt:[7]'' (show_mountinfo [sample_line])"
  by (simp add: speaker_def node_os_def node_paths)

theorem holders_exact_witness:
  "\<exists>e' pid' b'. speaker node_os ''/proc'' () e' pid' ''mnt:[7]'' b' \<and> (\<forall>m \<in> set (parseMountinfo b').
     dead_fuse {''0:52''} m \<longrightarrow> \<lparr>hPid = pid', hEntry = m\<rparr> \<in> set (val_of (findHolders node_os ''/proc'' {''0:52''}) ()))"
proof -
  have "val_of (os_ReadDir node_os ''/proc'') () = Some [(''1'', True), (''7'', True), (''stat'', False)]"
    by (simp add: node_os_def)
  note holders_exact[OF node_reads this, of "{''0:52''}", THEN conjunct2, rule_format, of "''7''" 7 "''mnt:[7]''"]
  moreover have "\<not> own_namespace node_os ''/proc'' () ''mnt:[7]''"
    by (simp add: own_namespace_def node_os_def node_paths)
  ultimately show ?thesis using node_speaker by simp
qed


text \<open>The node again, with its staging mount healed, and an outside that counts the grafts made.\<close>

definition graft_os :: "string list set os" where
  "graft_os = idle_os\<lparr>os_Run := \<lambda>cmd args env. State (\<lambda>g. (('''', True), insert args g))\<rparr>"


text \<open>A device marked dead while a round is grafting is lost: the sweep at the end of the round keeps
  only devices the round knew, so one marked after its snapshot is forgotten with no graft tried.\<close>

theorem late_mark_lost:
  assumes "range_doc os" "finite (dom stage)" "val_of (graft_round os stage) s = Some keep"
    and "vols w i = Some v" "d \<noteq> ''''" "d \<notin> dom stage"
  shows "(\<exists>v'. vols (exec (markDead p i d) w) i = Some v' \<and> d \<in> set (svDead v')) \<and>
    (\<exists>v'. vols (exec (sweepDead p keep) (exec (markDead p i d) w)) i = Some v' \<and> d \<notin> set (svDead v'))"
proof -
  have "d \<notin> keep" using graft_round_within[OF assms(1-3)] assms(6) by blast
  then show ?thesis using assms(4,5) by (auto simp: reg_simps dead.set_add)
qed

definition marked_world :: "string list set world" where
  "marked_world = exec (recordStage (idle_plugin\<lparr>pOS := graft_os\<rparr>) ''v'' ''/stage'' Map.empty Map.empty False) (start_world {})"

theorem late_mark_lost_witness:
  "\<exists>v'. vols (exec (sweepDead (idle_plugin\<lparr>pOS := graft_os\<rparr>) {})
      (exec (markDead (idle_plugin\<lparr>pOS := graft_os\<rparr>) ''v'' ''0:53'') marked_world)) ''v'' = Some v' \<and> ''0:53'' \<notin> set (svDead v')"
proof -
  let ?stage = "[''0:52'' \<mapsto> ''/stage'']"
  have range: "range_doc graft_os" using idle_range by (simp add: range_doc_def graft_os_def idle_os_def)
  have none: "val_of (graft_round graft_os ?stage) {} = Some {}"
    by (simp add: graft_round_def still_deads_def still_dead_def mountDead_def findHolders_def graft_os_def idle_os_def)
  have "\<exists>v. vols marked_world ''v'' = Some v" by (simp add: marked_world_def reg_simps)
  then obtain v where "vols marked_world ''v'' = Some v" ..
  from late_mark_lost[OF range _ none this, of "''0:53''" "idle_plugin\<lparr>pOS := graft_os\<rparr>"] show ?thesis by simp
qed

end
