(* ===== verification/NodeServer.thy ===== *)
theory NodeServer
  imports Csi VolumeId MountOptions Geesefs Graft
begin

text \<open>
  The node service (pkg/driver/nodeserver.go): staging a volume (mounting it), publishing it
  (binding it into a pod), undoing both, and the path all of them share with the supervisor,
  from a volume's ID, context and secrets to a mount. A request answers \<open>None\<close> on success and the
  gRPC error otherwise; requests that fail a check of their arguments stop there.
\<close>

section \<open>Where a volume lives\<close>

definition readOnlyCapability :: "VolumeCapability option \<Rightarrow> bool" where
  "readOnlyCapability c \<longleftrightarrow> getMode c = MULTI_NODE_READER_ONLY \<or> getMode c = SINGLE_NODE_READER_ONLY"

definition readOnlyModes :: "string list \<Rightarrow> bool" where
  "readOnlyModes modes \<longleftrightarrow> (\<forall>m \<in> set modes. m = ''ReadOnlyMany'') \<and> length modes > 0"

definition volumeTarget ::
  "'o plugin \<Rightarrow> string \<Rightarrow> smap \<Rightarrow> smap \<Rightarrow> ('o, err + Config \<times> s3Client \<times> FSMeta) state" where
  "volumeTarget p volumeID volumeContext csiSecrets =
     (let (bucketName, pfx) = volumeIDToBucketPrefix volumeID in do {
        r \<leftarrow> secretsForVolume (pK8s p) csiSecrets volumeContext;
        State_Monad.return (case r of
          Inl e \<Rightarrow> Inl e
        | Inr secrets \<Rightarrow>
            (case NewClientFromSecret (pDeps p) secrets of
               Inl e \<Rightarrow> Inl (Errorf (''failed to initialize S3 client: '' @ error_text e))
             | Inr client \<Rightarrow>
                 let cfg = clConfig client;
                     (bucketName, pfx) = (if CfgBucket cfg \<noteq> '''' then (CfgBucket cfg, '''') else (bucketName, pfx))
                 in Inr (cfg, client, getMeta bucketName pfx volumeContext)))
      })"

definition mountStaged :: "'o plugin \<Rightarrow> string \<Rightarrow> path \<Rightarrow> smap \<Rightarrow> smap \<Rightarrow> ('o, err option) state" where
  "mountStaged p volumeID target volumeContext csiSecrets = do {
     t \<leftarrow> volumeTarget p volumeID volumeContext csiSecrets;
     case t of
       Inl e \<Rightarrow> State_Monad.return (Some e)
     | Inr (cfg, _, meta) \<Rightarrow> Mount (New meta cfg) (pOS p) target volumeID
   }"

text \<open>Whether there is no mount at a path; a missing directory is made, a dead mount is detached.\<close>

definition checkMount :: "'o os \<Rightarrow> path \<Rightarrow> ('o, err + bool) state" where
  "checkMount os target = do {
     r \<leftarrow> mu_IsLikelyNotMountPoint os target;
     case r of
       Inr notMnt \<Rightarrow> State_Monad.return (Inr notMnt)
     | Inl e \<Rightarrow>
         if fst e = ENOENT then do {
           m \<leftarrow> os_MkdirAll os target;
           State_Monad.return (case m of Some e' \<Rightarrow> Inl (err_text e') | None \<Rightarrow> Inr True)
         }
         else if fst e = ENOTCONN \<or> fst e = EIO then do {
           lazyUnmount os target;
           State_Monad.return (Inr True)
         }
         else State_Monad.return (Inl (err_text e))
   }"

definition internal :: "err \<Rightarrow> err" where
  "internal e = Status Internal (error_text e)"

section \<open>Staging\<close>

text \<open>What follows a fresh mount: the volume is recorded and watched, the device that died is grafted over.\<close>

definition adopt :: "'o plugin \<Rightarrow> string \<Rightarrow> path \<Rightarrow> smap \<Rightarrow> smap \<Rightarrow> bool \<Rightarrow> string \<Rightarrow> ('o world, unit) state" where
  "adopt p volumeID staging volumeContext secrets rewarm deadDev = do {
     recordStage p volumeID staging volumeContext secrets rewarm;
     startWatch volumeID;
     markDead p volumeID deadDev;
     graftHolders p
   }"

definition NodeStageVolume :: "'o plugin \<Rightarrow> NodeStageRequest \<Rightarrow> ('o world, err option) state" where
  "NodeStageVolume p req =
     (let volumeID = nsVolumeId req; staging = nsStagingTargetPath req in
      if length volumeID = 0 then State_Monad.return (Some (Status InvalidArgument ''Volume ID missing in request''))
      else if length staging = 0 then State_Monad.return (Some (Status InvalidArgument ''Target path missing in request''))
      else if nsCapability req = None
      then State_Monad.return (Some (Status InvalidArgument ''NodeStageVolume Volume Capability must be provided''))
      else do {
        let rewarm = readOnlyCapability (nsCapability req);
        deadDev \<leftarrow> outside_m (deadMountDevice (pOS p) staging);
        c \<leftarrow> outside_m (checkMount (pOS p) staging);
        case c of
          Inl e \<Rightarrow> State_Monad.return (Some (internal e))
        | Inr notMnt \<Rightarrow>
            if \<not> notMnt then do {
              recordStage p volumeID staging (nsVolumeContext req) (nsSecrets req) rewarm;
              ensureWatch volumeID;
              State_Monad.return None
            }
            else do {
              e \<leftarrow> outside_m (mountStaged p volumeID staging (nsVolumeContext req) (nsSecrets req));
              case e of
                Some er \<Rightarrow> State_Monad.return (Some er)
              | None \<Rightarrow> do {
                  adopt p volumeID staging (nsVolumeContext req) (nsSecrets req) rewarm deadDev;
                  State_Monad.return None
                }
            }
      })"

definition NodeUnstageVolume :: "'o plugin \<Rightarrow> string \<Rightarrow> path \<Rightarrow> ('o world, err option) state" where
  "NodeUnstageVolume p volumeID staging =
     (if length volumeID = 0 then State_Monad.return (Some (Status InvalidArgument ''Volume ID missing in request''))
      else if length staging = 0 then State_Monad.return (Some (Status InvalidArgument ''Target path missing in request''))
      else do {
        r \<leftarrow> outside_m (FindFuseMountProcess (pOS p) staging);
        case r of
          Inl e \<Rightarrow> State_Monad.return (Some e)
        | Inr pr \<Rightarrow> do {
            (exists, err) \<leftarrow> (if pr = None then outside_m (SystemdUnmount (pOS p) volumeID)
                              else State_Monad.return (False, None));
            if exists \<and> err \<noteq> None then State_Monad.return err
            else do {
              _ \<leftarrow> (if \<not> exists then outside_m (FuseUnmount (pOS p) staging) else State_Monad.return None);
              forgetStage p volumeID;
              State_Monad.return None
            }
          }
      })"

section \<open>Publishing\<close>

definition bind_args :: "path \<Rightarrow> path \<Rightarrow> string list" where
  "bind_args source target = [''--bind'', source, target]"

text \<open>The first half of a publish: a staging mount that is gone or dead is revived.\<close>

definition revive :: "'o plugin \<Rightarrow> NodePublishRequest \<Rightarrow> ('o world, err option) state" where
  "revive p req =
     (let volumeID = npVolumeId req; staging = npStagingTargetPath req in do {
        deadDev \<leftarrow> outside_m (deadMountDevice (pOS p) staging);
        c \<leftarrow> outside_m (checkMount (pOS p) staging);
        case c of
          Inl e \<Rightarrow> State_Monad.return (Some (internal e))
        | Inr notMnt \<Rightarrow>
            if \<not> notMnt then State_Monad.return None
            else do {
              e \<leftarrow> outside_m (mountStaged p volumeID staging (npVolumeContext req) (npSecrets req));
              case e of
                Some er \<Rightarrow> State_Monad.return (Some er)
              | None \<Rightarrow> do {
                  adopt p volumeID staging (npVolumeContext req) (npSecrets req)
                    (readOnlyCapability (npCapability req)) deadDev;
                  State_Monad.return None
                }
            }
      })"

text \<open>The second half: the bind into the pod, unless the target is a mount already.\<close>

definition bind_target :: "'o plugin \<Rightarrow> NodePublishRequest \<Rightarrow> ('o world, err option) state" where
  "bind_target p req =
     (let staging = npStagingTargetPath req; target = npTargetPath req in do {
        c \<leftarrow> outside_m (checkMount (pOS p) target);
        case c of
          Inl e \<Rightarrow> State_Monad.return (Some (internal e))
        | Inr notMnt \<Rightarrow>
            if \<not> notMnt then State_Monad.return None
            else do {
              (out, ok) \<leftarrow> outside_m (os_Run (pOS p) ''mount'' (bind_args staging target) []);
              if \<not> ok then State_Monad.return (Some (Errorf
                (''Error running mount --bind '' @ staging @ '' '' @ target @ '': '' @ out)))
              else do {
                recordPublish p (npVolumeId req) target;
                State_Monad.return None
              }
            }
      })"

definition NodePublishVolume :: "'o plugin \<Rightarrow> NodePublishRequest \<Rightarrow> ('o world, err option) state" where
  "NodePublishVolume p req =
     (if npCapability req = None
      then State_Monad.return (Some (Status InvalidArgument ''Volume capability missing in request''))
      else if length (npVolumeId req) = 0
      then State_Monad.return (Some (Status InvalidArgument ''Volume ID missing in request''))
      else if length (npStagingTargetPath req) = 0
      then State_Monad.return (Some (Status InvalidArgument ''Staging Target path missing in request''))
      else if length (npTargetPath req) = 0
      then State_Monad.return (Some (Status InvalidArgument ''Target path missing in request''))
      else do {
        e \<leftarrow> revive p req;
        if e \<noteq> None then State_Monad.return e else bind_target p req
      })"

definition NodeUnpublishVolume :: "'o plugin \<Rightarrow> string \<Rightarrow> path \<Rightarrow> ('o world, err option) state" where
  "NodeUnpublishVolume p volumeID target =
     (if length volumeID = 0 then State_Monad.return (Some (Status InvalidArgument ''Volume ID missing in request''))
      else if length target = 0 then State_Monad.return (Some (Status InvalidArgument ''Target path missing in request''))
      else do {
        e \<leftarrow> outside_m (Unmount (pOS p) target);
        case e of
          Some er \<Rightarrow> State_Monad.return (Some (internal er))
        | None \<Rightarrow> do { forgetPublish p volumeID target; State_Monad.return None }
      })"

section \<open>The rest of the service\<close>

definition NodeGetCapabilities :: "capability_service list" where
  "NodeGetCapabilities = [STAGE_UNSTAGE_VOLUME]"

definition NodeGetInfo :: "'o plugin \<Rightarrow> string" where
  "NodeGetInfo p = pNodeID p"

definition NodeExpandVolume :: "err option" where
  "NodeExpandVolume = Some (Status Unimplemented ''NodeExpandVolume is not implemented'')"

definition NodeGetVolumeStats :: "err option" where
  "NodeGetVolumeStats = Some (Status Unimplemented ''NodeGetVolumeStats is not implemented'')"

section \<open>What a mount survives\<close>

text \<open>
  Looking at files and file systems, writing the state file, and grafting into other namespaces
  leave the mounts of the plugin's own namespace as they are.
\<close>

definition steady_doc :: "'o os \<Rightarrow> ('o \<Rightarrow> path \<Rightarrow> bool) \<Rightarrow> bool" where
  "steady_doc os mounted \<longleftrightarrow> (\<forall>q. let I = (\<lambda>s. mounted s q) in
     (\<forall>x. keeps I (os_Statfs os x)) \<and> (\<forall>x. keeps I (os_Stat os x)) \<and> (\<forall>x. keeps I (os_ReadFile os x)) \<and>
     (\<forall>x t m. keeps I (os_WriteFile os x t m)) \<and> (\<forall>x y. keeps I (os_Rename os x y)) \<and>
     (\<forall>x. keeps I (os_Readlink os x)) \<and> (\<forall>x. keeps I (os_ReadDir os x)) \<and> (\<forall>x. keeps I (rt_range os x)) \<and>
     (\<forall>args. keeps I (os_Run os nsmountHeal args [])))"

lemma steady_ops:
  assumes "steady_doc os mounted"
  shows "keeps (\<lambda>s. mounted s q) (os_Statfs os x)" "keeps (\<lambda>s. mounted s q) (os_Stat os x)"
    "keeps (\<lambda>s. mounted s q) (os_ReadFile os x)" "keeps (\<lambda>s. mounted s q) (os_WriteFile os x t m)"
    "keeps (\<lambda>s. mounted s q) (os_Rename os x y)" "keeps (\<lambda>s. mounted s q) (os_Readlink os x)"
    "keeps (\<lambda>s. mounted s q) (os_ReadDir os x)" "keeps (\<lambda>s. mounted s q) (rt_range os ks)"
    "keeps (\<lambda>s. mounted s q) (os_Run os nsmountHeal args [])"
  using assms by (simp_all add: steady_doc_def Let_def)

lemma keeps_outside: "keeps I m \<Longrightarrow> keeps (\<lambda>w. I (outside w)) (outside_m m)"
  by (simp add: keeps_iff)

lemma keeps_update: "(\<And>w. I (f w) = I w) \<Longrightarrow> keeps I (State_Monad.update f)"
  by (simp add: keeps_iff)

lemma steady_probe: "steady_doc os mounted \<Longrightarrow> keeps (\<lambda>s. mounted s q) (mountDead os x)"
  unfolding mountDead_def by (intro keeps_intros steady_ops)

lemma steady_device: "steady_doc os mounted \<Longrightarrow> keeps (\<lambda>s. mounted s q) (mountDevice os i x)"
  unfolding mountDevice_def by (intro keeps_intros steady_ops)

lemma steady_dead_device: "steady_doc os mounted \<Longrightarrow> keeps (\<lambda>s. mounted s q) (deadMountDevice os x)"
  unfolding deadMountDevice_def by (intro keeps_intros steady_probe steady_device)

lemma steady_holders: "steady_doc os mounted \<Longrightarrow> keeps (\<lambda>s. mounted s q) (holders_from os proc dead seen es)"
proof (induction es arbitrary: seen)
  case (Cons e es)
  then show ?case by (auto intro!: keeps_intros steady_ops)
qed (simp add: keeps_intros)

lemma steady_graft_all: "steady_doc os mounted \<Longrightarrow> keeps (\<lambda>s. mounted s q) (graft_all os stage keep hs)"
proof (induction hs arbitrary: keep)
  case (Cons h hs)
  then show ?case by (auto intro!: keeps_intros steady_ops)
qed (simp add: keeps_intros)

lemma steady_round: "steady_doc os mounted \<Longrightarrow> keeps (\<lambda>s. mounted s q) (graft_round os stage)"
  unfolding graft_round_def still_deads_def still_dead_def findHolders_def
  by (intro keeps_intros steady_ops steady_probe steady_holders steady_graft_all)

lemma steady_persist:
  "steady_doc (pOS p) mounted \<Longrightarrow> keeps (\<lambda>w. mounted (outside w) q) (persist p)"
  unfolding persist_def Let_def by (intro keeps_intros keeps_outside[where I = "\<lambda>s. mounted s q"] steady_ops)

lemma steady_sections:
  assumes "steady_doc (pOS p) mounted"
  shows "keeps (\<lambda>w. mounted (outside w) q) (recordStage p i sp vc se rw)"
    "keeps (\<lambda>w. mounted (outside w) q) (recordPublish p i t)"
    "keeps (\<lambda>w. mounted (outside w) q) (markDead p i d)"
    "keeps (\<lambda>w. mounted (outside w) q) (sweepDead p keep)"
    "keeps (\<lambda>w. mounted (outside w) q) (startWatch i)" "keeps (\<lambda>w. mounted (outside w) q) (ensureWatch i)"
    "keeps (\<lambda>w. mounted (outside w) q) (graftHolders p)"
proof -
  note k = keeps_intros keeps_update steady_persist[OF assms] keeps_outside[where I = "\<lambda>s. mounted s q"]
    steady_ops[OF assms] steady_round[OF assms]
  show "keeps (\<lambda>w. mounted (outside w) q) (recordStage p i sp vc se rw)"
    unfolding recordStage_def Let_def by (intro k) simp
  show "keeps (\<lambda>w. mounted (outside w) q) (recordPublish p i t)"
    unfolding recordPublish_def Let_def by (intro k) simp
  show "keeps (\<lambda>w. mounted (outside w) q) (markDead p i d)"
    unfolding markDead_def Let_def by (intro k) simp
  show sweep: "keeps (\<lambda>w. mounted (outside w) q) (sweepDead p keep)" for keep
    unfolding sweepDead_def Let_def by (intro k) simp
  show watch: "keeps (\<lambda>w. mounted (outside w) q) (startWatch i)"
    by (simp add: keeps_iff exec_startWatch split: option.split)
  then show "keeps (\<lambda>w. mounted (outside w) q) (ensureWatch i)"
    unfolding ensureWatch_def by (intro k)
  show "keeps (\<lambda>w. mounted (outside w) q) (graftHolders p)"
    unfolding graftHolders_def dead_stages_def by (intro k sweep)
qed

lemma steady_adopt:
  "steady_doc (pOS p) mounted \<Longrightarrow> keeps (\<lambda>w. mounted (outside w) q) (adopt p i sp vc se rw d)"
  unfolding adopt_def by (intro keeps_intros steady_sections)

section \<open>What grafting leaves of the registry\<close>

lemma graftHolders_cases:
  obtains s where "exec (graftHolders p) w = w\<lparr>outside := s\<rparr>"
  | s keep where "exec (graftHolders p) w = exec (sweepDead p keep) (w\<lparr>outside := s\<rparr>)"
proof -
  let ?r = "val_of (graft_round (pOS p) (val_of (dead_stages (pOS p)) w)) (outside (exec (dead_stages (pOS p)) w))"
  show thesis
    using that by (cases ?r) (auto simp: graftHolders_def dead_stages_def)
qed

lemma graftHolders_tasks: "same_tasks w (exec (graftHolders p) w)"
proof (cases rule: graftHolders_cases[of p w])
  case (1 s)
  then show ?thesis by (simp add: same_tasks_volumes)
next
  case (2 s keep)
  have "same_tasks (w\<lparr>outside := s\<rparr>) (exec (sweepDead p keep) (w\<lparr>outside := s\<rparr>))" by (rule same_tasks_volumes)
  then show ?thesis unfolding 2 by (simp add: same_tasks_def)
qed

lemma graftHolders_vols:
  "\<exists>ds. vols (exec (graftHolders p) w) i = map_option (\<lambda>v. v\<lparr>svDead := ds\<rparr>) (vols w i)"
proof (cases rule: graftHolders_cases[of p w])
  case (1 s)
  then show ?thesis by (cases "vols w i") (auto intro: exI[of _ "svDead (the (vols w i))"])
next
  case (2 s keep)
  then show ?thesis
    by (auto simp: vols_sweepDead intro!: exI[of _ "filter (\<lambda>d. d \<in> keep) (svDead (the (vols w i)))"]
        option.map_cong)
qed

text \<open>What is left of a volume that was just mounted.\<close>

lemma adopt_leaves:
  "\<exists>v. vols (exec (adopt p i sp vc se rw d) w) i = Some v \<and> svStagePath v = sp \<and> svVolumeContext v = vc \<and>
     svSecrets v = se \<and> svRewarm v = rw \<and>
     svPublishes v = (case vols w i of None \<Rightarrow> [] | Some o' \<Rightarrow> svPublishes o')"
  "\<exists>r. watches (exec (adopt p i sp vc se rw d) w) i = Some r \<and> wrStage r = sp \<and> wrRewarm r = rw \<and>
     WatchRun r vc se \<in> set (spawned (exec (adopt p i sp vc se rw d) w))"
proof -
  let ?w1 = "exec (recordStage p i sp vc se rw) w"
  let ?w2 = "exec (startWatch i) ?w1"
  let ?w3 = "exec (markDead p i d) ?w2"
  have e: "exec (adopt p i sp vc se rw d) w = exec (graftHolders p) ?w3" by (simp add: adopt_def)
  have v1: "vols ?w1 i = Some \<lparr>svVolumeID = i, svStagePath = sp, svVolumeContext = vc, svSecrets = se,
      svPublishes = (case vols w i of None \<Rightarrow> [] | Some v \<Rightarrow> svPublishes v), svRewarm = rw,
      svDead = (case vols w i of None \<Rightarrow> [] | Some v \<Rightarrow> svDead v)\<rparr>" (is "_ = Some ?v") by (simp add: reg_simps)
  have v2: "vols ?w2 = vols ?w1" by (simp add: exec_startWatch split: option.split)
  have v3: "\<exists>ds. vols ?w3 i = Some (?v\<lparr>svDead := ds\<rparr>)"
    unfolding vols_markDead v2 by (auto simp: v1 intro: exI[of _ "svDead ?v"])
  then show "\<exists>v. vols (exec (adopt p i sp vc se rw d) w) i = Some v \<and> svStagePath v = sp \<and> svVolumeContext v = vc \<and>
     svSecrets v = se \<and> svRewarm v = rw \<and>
     svPublishes v = (case vols w i of None \<Rightarrow> [] | Some o' \<Rightarrow> svPublishes o')"
    using graftHolders_vols[of p ?w3 i] unfolding e by auto
  have t: "same_tasks ?w3 (exec (graftHolders p) ?w3)" "same_tasks ?w2 ?w3"
    by (rule graftHolders_tasks, rule same_tasks_volumes)
  have "watches ?w2 i = Some (new_watch i ?v (nextCtx ?w1))"
    "WatchRun (new_watch i ?v (nextCtx ?w1)) vc se \<in> set (spawned ?w2)"
    by (simp_all add: exec_startWatch v1)
  then show "\<exists>r. watches (exec (adopt p i sp vc se rw d) w) i = Some r \<and> wrStage r = sp \<and> wrRewarm r = rw \<and>
     WatchRun r vc se \<in> set (spawned (exec (adopt p i sp vc se rw d) w))"
    using t unfolding e by (simp add: same_tasks_def new_watch_def)
qed

text \<open>The mount itself, and where it leads.\<close>

lemma mountStaged_there:
  assumes "mount_doc (pOS p) mounted" "val_of (mountStaged p i t vc se) s = None"
  shows "mounted (exec (mountStaged p i t vc se) s) t"
  using assms by (auto simp: mountStaged_def intro: any.mount_there split: sum.splits prod.splits)

lemma checkMount_there:
  "mount_doc os mounted \<Longrightarrow> val_of (checkMount os t) s = Inr False \<Longrightarrow> mounted (exec (checkMount os t) s) t"
  using mount_doc_ask(2)[of os mounted t s False]
  by (auto simp: checkMount_def mount_doc_ask(1) split: sum.splits if_splits option.splits)

lemma volumeTarget_place:
  assumes "val_of (volumeTarget p i vc se) s = Inr (cfg, c, m)"
  shows "cfg = clConfig c \<and> (BucketName m, Prefix m) =
    (if mget vc cosiBucketContextKey \<noteq> '''' then (mget vc cosiBucketContextKey, '''')
     else if CfgBucket cfg \<noteq> '''' then (CfgBucket cfg, '''')
     else volumeIDToBucketPrefix i)"
  using assms by (auto simp: volumeTarget_def Let_def getMeta_def split: sum.splits prod.splits if_splits)

definition same_registry :: "'o world \<Rightarrow> 'o world \<Rightarrow> bool" where
  "same_registry w w' \<longleftrightarrow> vols w' = vols w \<and> same_tasks w w'"

lemma same_registry_outside [simp]: "same_registry w (w\<lparr>outside := s\<rparr>)"
  by (simp add: same_registry_def same_tasks_volumes)

section \<open>Properties\<close>

definition stage_args_ok :: "NodeStageRequest \<Rightarrow> bool" where
  "stage_args_ok req \<longleftrightarrow> nsVolumeId req \<noteq> '''' \<and> nsStagingTargetPath req \<noteq> '''' \<and> nsCapability req \<noteq> None"

text \<open>C5. A volume that is staged is mounted, recorded and watched. When NodeStageVolume reports success
  there is a mount at the staging path; the supervisor has the volume with that path and with the
  context, the secrets and the read-only mode of the request; and a watch of it is registered.\<close>

theorem stage_mounts:
  assumes "mount_doc (pOS p) mounted" "steady_doc (pOS p) mounted" "val_of (NodeStageVolume p req) w = None"
  shows "mounted (outside (exec (NodeStageVolume p req) w)) (nsStagingTargetPath req) \<and>
    (\<exists>v. vols (exec (NodeStageVolume p req) w) (nsVolumeId req) = Some v \<and> svStagePath v = nsStagingTargetPath req \<and>
       svVolumeContext v = nsVolumeContext req \<and> svSecrets v = nsSecrets req \<and>
       svRewarm v = readOnlyCapability (nsCapability req)) \<and>
    watches (exec (NodeStageVolume p req) w) (nsVolumeId req) \<noteq> None"
proof -
  let ?i = "nsVolumeId req" and ?sp = "nsStagingTargetPath req" and ?vc = "nsVolumeContext req"
    and ?se = "nsSecrets req" and ?rw = "readOnlyCapability (nsCapability req)"
  let ?d = "val_of (deadMountDevice (pOS p) ?sp) (outside w)"
  let ?s1 = "exec (deadMountDevice (pOS p) ?sp) (outside w)"
  let ?s2 = "exec (checkMount (pOS p) ?sp) ?s1"
  let ?m = "mountStaged p ?i ?sp ?vc ?se"
  consider (there) "val_of (checkMount (pOS p) ?sp) ?s1 = Inr False"
      "exec (NodeStageVolume p req) w = exec (ensureWatch ?i) (exec (recordStage p ?i ?sp ?vc ?se ?rw) (w\<lparr>outside := ?s2\<rparr>))"
    | (fresh) "val_of (checkMount (pOS p) ?sp) ?s1 = Inr True" "val_of ?m ?s2 = None"
      "exec (NodeStageVolume p req) w = exec (adopt p ?i ?sp ?vc ?se ?rw ?d) (w\<lparr>outside := exec ?m ?s2\<rparr>)"
    using assms(3) by (auto simp: NodeStageVolume_def Let_def split: if_splits sum.splits option.splits)
  then show ?thesis
  proof cases
    case there
    let ?w1 = "exec (recordStage p ?i ?sp ?vc ?se ?rw) (w\<lparr>outside := ?s2\<rparr>)"
    have "mounted ?s2 ?sp" by (rule checkMount_there[OF assms(1) there(1)])
    then have "mounted (outside ?w1) ?sp"
      using keepsD[OF steady_sections(1)[OF assms(2)], where w = "w\<lparr>outside := ?s2\<rparr>"] by simp
    then have m: "mounted (outside (exec (ensureWatch ?i) ?w1)) ?sp"
      by (rule keepsD[OF steady_sections(6)[OF assms(2)]])
    have "vols (exec (ensureWatch ?i) ?w1) = vols ?w1" "watches (exec (ensureWatch ?i) ?w1) ?i \<noteq> None"
      by (auto simp: ensureWatch_def exec_startWatch vols_recordStage split: option.split)
    with m show ?thesis unfolding there(2) by (simp add: vols_recordStage)
  next
    case fresh
    have "mounted (exec ?m ?s2) ?sp" by (rule mountStaged_there[OF assms(1) fresh(2)])
    then have "mounted (outside (exec (adopt p ?i ?sp ?vc ?se ?rw ?d) (w\<lparr>outside := exec ?m ?s2\<rparr>))) ?sp"
      using keepsD[OF steady_adopt[OF assms(2)], where w = "w\<lparr>outside := exec ?m ?s2\<rparr>"] by simp
    then show ?thesis
      using adopt_leaves[of p ?i ?sp ?vc ?se ?rw ?d "w\<lparr>outside := exec ?m ?s2\<rparr>"] unfolding fresh(3) by blast
  qed
qed

definition sample_stage :: NodeStageRequest where
  "sample_stage = \<lparr>nsVolumeId = ''b/p'', nsStagingTargetPath = ''/s'',
     nsCapability = Some \<lparr>AccessMode = Some MULTI_NODE_READER_ONLY, MountFlags = []\<rparr>,
     nsVolumeContext = Map.empty, nsSecrets = [''endpoint'' \<mapsto> ''e'']\<rparr>"

lemma idle_steady: "steady_doc (idle_os :: 'o os) (\<lambda>s p. True)"
  by (simp add: steady_doc_def keeps_iff)

lemma idle_probe: "val_of (deadMountDevice idle_os x) s = ''''" "exec (deadMountDevice idle_os x) s = s"
  by (simp_all add: deadMountDevice_def mountDead_def idle_os_def)

lemma idle_check: "val_of (checkMount idle_os x) s = Inr False" "exec (checkMount idle_os x) s = s"
  by (simp_all add: checkMount_def idle_os_def)

lemma idle_plugin_os [simp]: "pOS idle_plugin = idle_os"
  by (simp add: idle_plugin_def)

theorem stage_mounts_witness:
  "\<exists>v. vols (exec (NodeStageVolume idle_plugin sample_stage) (start_world ())) ''b/p'' = Some v \<and>
     svStagePath v = ''/s'' \<and> svRewarm v"
proof -
  have "val_of (NodeStageVolume idle_plugin sample_stage) (start_world ()) = None"
    by (simp add: NodeStageVolume_def Let_def sample_stage_def idle_probe idle_check)
  from stage_mounts[of idle_plugin, OF _ _ this] idle_mounts idle_steady show ?thesis
    by (auto simp: sample_stage_def readOnlyCapability_def getMode_def)
qed



text \<open>C23. Staging that fails changes nothing the plugin remembers, and an argument that is missing is
  refused before the node is touched at all: no mount, no probe, no file.\<close>

theorem stage_fails_clean:
  assumes "val_of (NodeStageVolume p req) w = Some e"
  shows "same_registry w (exec (NodeStageVolume p req) w) \<and>
    (\<not> stage_args_ok req \<longrightarrow> exec (NodeStageVolume p req) w = w \<and>
       (\<exists>t. e = Status InvalidArgument t \<and> t \<in> {''Volume ID missing in request'', ''Target path missing in request'',
         ''NodeStageVolume Volume Capability must be provided''}))"
  using assms
  by (auto simp: NodeStageVolume_def Let_def stage_args_ok_def same_registry_def same_tasks_def
      split: if_splits sum.splits option.splits)

theorem stage_fails_clean_witness:
  "exec (NodeStageVolume idle_plugin (sample_stage\<lparr>nsCapability := None\<rparr>)) sample_staged = sample_staged"
proof -
  let ?req = "sample_stage\<lparr>nsCapability := None\<rparr>"
  have "val_of (NodeStageVolume idle_plugin ?req) sample_staged =
      Some (Status InvalidArgument ''NodeStageVolume Volume Capability must be provided'')"
    by (simp add: NodeStageVolume_def Let_def sample_stage_def)
  from stage_fails_clean[OF this] show ?thesis by (simp add: stage_args_ok_def)
qed

text \<open>What \<open>mount --bind\<close> does when it succeeds.\<close>

definition bind_doc :: "'o os \<Rightarrow> ('o \<Rightarrow> path \<Rightarrow> bool) \<Rightarrow> bool" where
  "bind_doc os mounted \<longleftrightarrow> (\<forall>a b s. snd (val_of (os_Run os ''mount'' (bind_args a b) []) s) \<longrightarrow>
     mounted (exec (os_Run os ''mount'' (bind_args a b) []) s) b)"


definition sample_publish :: NodePublishRequest where
  "sample_publish = \<lparr>npVolumeId = ''v'', npTargetPath = ''/t'', npStagingTargetPath = ''/s'',
     npCapability = Some \<lparr>AccessMode = None, MountFlags = []\<rparr>, npVolumeContext = Map.empty, npSecrets = Map.empty\<rparr>"

text \<open>An outside whose state is the set of its mounts.\<close>

definition bind_os :: "path set os" where
  "bind_os = idle_os\<lparr>mu_IsLikelyNotMountPoint := \<lambda>t. State (\<lambda>s. (Inr (t \<notin> s), s)),
     os_Run := \<lambda>cmd args env. State (\<lambda>s. (('''', True), if cmd = ''mount'' then insert (last args) s else s))\<rparr>"

lemma bind_os_docs:
  "mount_doc bind_os (\<lambda>s t. t \<in> s)" "steady_doc bind_os (\<lambda>s t. t \<in> s)" "bind_doc bind_os (\<lambda>s t. t \<in> s)"
  by (simp_all add: mount_doc_def steady_doc_def bind_doc_def bind_args_def bind_os_def idle_os_def keeps_iff
      nsmountHeal_def)


text \<open>A target is forgotten after it is unmounted and not before: when the unmount fails the request
  fails and the targets of every volume are what they were; when it succeeds exactly this target
  of exactly this volume is dropped.\<close>

theorem unpublish_after_unmount:
  assumes "i \<noteq> ''''" "t \<noteq> ''''"
  shows "case val_of (Unmount (pOS p) t) (outside w) of
     Some e \<Rightarrow> val_of (NodeUnpublishVolume p i t) w = Some (internal e) \<and>
       same_registry w (exec (NodeUnpublishVolume p i t) w)
   | None \<Rightarrow> val_of (NodeUnpublishVolume p i t) w = None \<and>
       (\<forall>j. vols (exec (NodeUnpublishVolume p i t) w) j = (if j = i
          then map_option (\<lambda>v. v\<lparr>svPublishes := filter (\<lambda>x. x \<noteq> t) (svPublishes v)\<rparr>) (vols w i) else vols w j))"
  using assms
  by (auto simp: NodeUnpublishVolume_def vols_forgetPublish remove_publish_def split: option.split)

theorem unpublish_after_unmount_witness: "val_of (NodeUnpublishVolume idle_plugin ''v'' ''/t'') sample_staged = None"
  using unpublish_after_unmount[of "''v''" "''/t''" idle_plugin sample_staged]
  by (simp add: Unmount_def idle_os_def)

text \<open>C21. Unstaging ends in success whatever the unmount did: once the processes of the node could be
  listed, the volume, its watch and its walks are gone from the supervisor and no error is reported,
  even when neither systemd nor umount could unmount the staging path.\<close>

theorem unstage_forgets_anyway:
  assumes "i \<noteq> ''''" "sp \<noteq> ''''" "val_of (FindFuseMountProcess (pOS p) sp) (outside w) = Inr pr"
  shows "val_of (NodeUnstageVolume p i sp) w = None \<and> vols (exec (NodeUnstageVolume p i sp) w) = (vols w)(i := None) \<and>
    watches (exec (NodeUnstageVolume p i sp) w) i = None \<and> warming (exec (NodeUnstageVolume p i sp) w) i = None \<and>
    (\<forall>c. watch_ctx w i = Some c \<or> warming w i = Some c \<longrightarrow> c \<in> cancelled (exec (NodeUnstageVolume p i sp) w))"
proof -
  have never: "val_of (SystemdUnmount (pOS p) i) s \<noteq> (True, Some e)" for s e
    by (auto simp: SystemdUnmount_def split: option.splits sum.splits)
  have "val_of (NodeUnstageVolume p i sp) w = None \<and>
      (\<exists>s. exec (NodeUnstageVolume p i sp) w = exec (forgetStage p i) (w\<lparr>outside := s\<rparr>))"
    using assms by (auto simp: NodeUnstageVolume_def never split: prod.split)
  then obtain s where v: "val_of (NodeUnstageVolume p i sp) w = None"
    and e: "exec (NodeUnstageVolume p i sp) w = exec (forgetStage p i) (w\<lparr>outside := s\<rparr>)" by blast
  show ?thesis
    unfolding v e using same_tasks_volumes(2)[of _ p i]
    by (auto simp: forgetStage_def vols_dropVolume exec_stopWatch exec_stopWarm same_tasks_def watch_ctx_def
        split: option.splits)
qed

definition busy_os :: "unit os" where
  "busy_os = idle_os\<lparr>mu_Unmount := \<lambda>t. State_Monad.return (Some (Errorf ''device is busy'')),
     sd_New := State_Monad.return (Some (Errorf ''no bus''))\<rparr>"

theorem unstage_forgets_anyway_witness:
  "val_of (NodeUnstageVolume (idle_plugin\<lparr>pOS := busy_os\<rparr>) ''v'' ''/s'') sample_staged = None \<and>
   val_of (FuseUnmount busy_os ''/s'') () = Some (Errorf ''device is busy'')"
proof -
  have "val_of (FindFuseMountProcess (pOS (idle_plugin\<lparr>pOS := busy_os\<rparr>)) ''/s'') (outside sample_staged) = Inr None"
    by (simp add: FindFuseMountProcess_def busy_os_def idle_os_def)
  from unstage_forgets_anyway[OF _ _ this, of "''v''"] show ?thesis
    by (simp add: FuseUnmount_def busy_os_def)
qed

end
