(* ===== verification/Supervisor.thy ===== *)
theory Supervisor
  imports NodeServer
begin

text \<open>
  The supervisor's loop (pkg/driver/supervisor.go): probing the staged mounts, healing the dead
  ones, adopting mounts the plugin does not know, and starting up from the state file. The
  bookkeeping it keeps is in SupState and StateFile, the grafts are in Graft.
\<close>

section \<open>Healing\<close>

text \<open>One publish bind made again; a failure is logged and the next one tried.\<close>

definition rebind :: "'o os \<Rightarrow> path \<Rightarrow> path \<Rightarrow> ('o, unit) state" where
  "rebind os staging t = do {
     _ \<leftarrow> os_Run os ''mount'' (bind_args staging t) [];
     State_Monad.return ()
   }"

text \<open>Detaching a dead staging mount, its binds first.\<close>

definition detach_all :: "'o os \<Rightarrow> stagedVolume \<Rightarrow> ('o, unit) state" where
  "detach_all os v = do {
     iter_m (lazyUnmount os) (svPublishes v);
     lazyUnmount os (svStagePath v)
   }"

definition heal :: "'o plugin \<Rightarrow> stagedVolume \<Rightarrow> ('o world, unit) state" where
  "heal p v = do {
     dev \<leftarrow> outside_m (mountDevice (pOS p) ''/proc/self/mountinfo'' (svStagePath v));
     outside_m (detach_all (pOS p) v);
     stopWarm (svVolumeID v);
     e \<leftarrow> outside_m (mountStaged p (svVolumeID v) (svStagePath v) (svVolumeContext v) (svSecrets v));
     if e \<noteq> None then State_Monad.return ()
     else do {
       startWatch (svVolumeID v);
       outside_m (iter_m (rebind (pOS p) (svStagePath v)) (svPublishes v));
       markDead p (svVolumeID v) dev;
       graftHolders p
     }
   }"

definition check_one :: "'o plugin \<Rightarrow> stagedVolume \<Rightarrow> ('o world, unit) state" where
  "check_one p v = do {
     (dead, gone) \<leftarrow> outside_m (mountDead (pOS p) (svStagePath v));
     if gone then State_Monad.return ()
     else if \<not> dead then State_Monad.return ()
     else heal p v
   }"

text \<open>The volumes are copied under the lock and probed without it.\<close>

definition checkAll :: "'o plugin \<Rightarrow> ('o world, unit) state" where
  "checkAll p = do {
     w \<leftarrow> State_Monad.get;
     ids \<leftarrow> outside_m (rt_range (pOS p) (dom (vols w)));
     iter_m (check_one p) (map (\<lambda>i. the (vols w i)) ids)
   }"

section \<open>Adopting\<close>

definition own_staging :: "string \<Rightarrow> path \<Rightarrow> bool" where
  "own_staging driver mp \<longleftrightarrow> sublist (''/plugins/kubernetes.io/csi/'' @ driver @ ''/'') mp \<and> suffix ''/globalmount'' mp"

definition own_publish :: "path \<Rightarrow> bool" where
  "own_publish mp \<longleftrightarrow> sublist ''/volumes/kubernetes.io~csi/'' mp \<and> suffix ''/mount'' mp"

text \<open>One line of /proc/mounts: the mountpoint, if the line is that of a FUSE mount.\<close>

definition fuse_mount :: "string \<Rightarrow> path option" where
  "fuse_mount line =
     (let f = Fields line in
      if length f < 3 \<or> \<not> prefix ''fuse'' (f ! 2) then None else Some (f ! 1))"

definition scan_mounts :: "string \<Rightarrow> string \<Rightarrow> path list \<times> path list" where
  "scan_mounts driver text =
     (let mps = List.map_filter fuse_mount (split_on (CHR 0x0A) text)
      in (filter (own_staging driver) mps, filter (\<lambda>mp. \<not> own_staging driver mp \<and> own_publish mp) mps))"

definition scanOwnMounts :: "'o os \<Rightarrow> string \<Rightarrow> ('o, path list \<times> path list) state" where
  "scanOwnMounts os driver = do {
     b \<leftarrow> os_ReadFile os ''/proc/mounts'';
     State_Monad.return (case b of Inl _ \<Rightarrow> ([], []) | Inr text \<Rightarrow> scan_mounts driver text)
   }"

fun vol_handle :: "json option \<Rightarrow> string" where
  "vol_handle (Some (JObj kvs)) =
     (case (str_of (field kvs ''volumeHandle''), str_of (field kvs ''driverName'')) of
        (Some h, Some _) \<Rightarrow> h | _ \<Rightarrow> '''')"
| "vol_handle _ = ''''"

definition volHandleFor :: "'o plugin \<Rightarrow> path \<Rightarrow> ('o, string) state" where
  "volHandleFor p dir = do {
     b \<leftarrow> os_ReadFile (pOS p) (path_join [dir, ''vol_data.json'']);
     State_Monad.return (case b of Inl _ \<Rightarrow> '''' | Inr text \<Rightarrow> vol_handle (pUnmarshal p text))
   }"

record pvInfo =
  piHandle :: string
  piAttributes :: smap
  piSecretName :: string
  piSecretNS :: string
  piRewarm :: bool

definition pv_info :: "string \<Rightarrow> pv \<Rightarrow> pvInfo option" where
  "pv_info driver v =
     (if \<not> pvCSI v \<or> pvDriver v \<noteq> driver then None
      else Some \<lparr>piHandle = pvVolumeHandle v, piAttributes = pvVolumeAttributes v,
        piSecretName = (case pvNodeStageSecretRef v of None \<Rightarrow> '''' | Some (n, ns) \<Rightarrow> n),
        piSecretNS = (case pvNodeStageSecretRef v of None \<Rightarrow> '''' | Some (n, ns) \<Rightarrow> ns),
        piRewarm = readOnlyModes (pvAccessModes v)\<rparr>)"

definition listPVs :: "'o plugin \<Rightarrow> ('o, pvInfo list) state" where
  "listPVs p =
     (case pK8s p of
        None \<Rightarrow> State_Monad.return []
      | Some k \<Rightarrow> do {
          r \<leftarrow> list_PVs k;
          State_Monad.return (case r of Inl _ \<Rightarrow> [] | Inr items \<Rightarrow> List.map_filter (pv_info (pDriver p)) items)
        })"

text \<open>The stage secrets of a PV; \<open>None\<close> when they could not be read.\<close>

definition stage_secrets :: "'o plugin \<Rightarrow> pvInfo \<Rightarrow> ('o, smap option) state" where
  "stage_secrets p info =
     (case pK8s p of
        None \<Rightarrow> State_Monad.return (Some Map.empty)
      | Some k \<Rightarrow>
          if piSecretName info = '''' then State_Monad.return (Some Map.empty)
          else do {
            r \<leftarrow> get_Secret k (piSecretNS info) (piSecretName info);
            State_Monad.return (case r of Inl _ \<Rightarrow> None | Inr data \<Rightarrow> Some (secretDataToStringMap data))
          })"

text \<open>The PVs are listed once a mount needs them, and again while the list is empty.\<close>

fun adopt_staged :: "'o plugin \<Rightarrow> path set \<Rightarrow> pvInfo list \<Rightarrow> path list \<Rightarrow> ('o world, unit) state" where
  "adopt_staged p known pvs [] = State_Monad.return ()"
| "adopt_staged p known pvs (sp # sps) =
     (if sp \<in> known then adopt_staged p known pvs sps
      else do {
        handle \<leftarrow> outside_m (volHandleFor p (path_dir sp));
        if handle = '''' then adopt_staged p known pvs sps
        else do {
          pvs' \<leftarrow> (if pvs = [] then outside_m (listPVs p) else State_Monad.return pvs);
          case find (\<lambda>i. piHandle i = handle) pvs' of
            None \<Rightarrow> adopt_staged p known pvs' sps
          | Some info \<Rightarrow> do {
              sec \<leftarrow> outside_m (stage_secrets p info);
              case sec of
                None \<Rightarrow> adopt_staged p known pvs' sps
              | Some secrets \<Rightarrow> do {
                  recordStage p handle sp (piAttributes info) secrets (piRewarm info);
                  adopt_staged p known pvs' sps
                }
            }
        }
      })"

definition adopt_publish :: "'o plugin \<Rightarrow> string set \<Rightarrow> path \<Rightarrow> ('o world, unit) state" where
  "adopt_publish p handles pp = do {
     handle \<leftarrow> outside_m (volHandleFor p (path_dir pp));
     if handle = '''' \<or> handle \<notin> handles then State_Monad.return ()
     else recordPublish p handle pp
   }"

definition known_stages :: "'o world \<Rightarrow> path set" where
  "known_stages w = svStagePath ` ran (vols w)"

definition discover :: "'o plugin \<Rightarrow> ('o world, unit) state" where
  "discover p = do {
     (staged, published) \<leftarrow> outside_m (scanOwnMounts (pOS p) (pDriver p));
     if length staged = 0 \<and> length published = 0 then State_Monad.return ()
     else do {
       w \<leftarrow> State_Monad.get;
       adopt_staged p (known_stages w) [] staged;
       w' \<leftarrow> State_Monad.get;
       iter_m (adopt_publish p (dom (vols w'))) published
     }
   }"

section \<open>The loop\<close>

text \<open>\<open>n\<close> ticks came before; every tenth looks for mounts to adopt.\<close>

definition tick :: "'o plugin \<Rightarrow> nat \<Rightarrow> ('o world, unit) state" where
  "tick p n = do {
     (if Suc n mod 10 = 0 then do { discover p; ensureWatches p } else State_Monad.return ());
     checkAll p;
     graftHolders p
   }"

text \<open>The loop up to the end of its context, which comes after \<open>k\<close> ticks.\<close>

fun ticks :: "'o plugin \<Rightarrow> nat \<Rightarrow> nat \<Rightarrow> ('o world, unit) state" where
  "ticks p n 0 = State_Monad.return ()"
| "ticks p n (Suc k) = do { tick p n; ticks p (Suc n) k }"

definition run :: "'o plugin \<Rightarrow> int \<Rightarrow> nat \<Rightarrow> ('o world, unit) state" where
  "run p interval k =
     (if interval \<le> 0 then ensureWatches p
      else do {
        discover p;
        ensureWatches p;
        checkAll p;
        graftHolders p;
        ticks p 0 k
      })"

section \<open>Starting\<close>

definition superviseIntervalEnv :: string where "superviseIntervalEnv = ''CSI_S3_SUPERVISE_INTERVAL''"
definition defaultSuperviseSeconds :: int where "defaultSuperviseSeconds = 30"
definition stateFileName :: string where "stateFileName = ''supervisor-state.json''"

text \<open>\<open>os.TempDir\<close>: the environment's, or /tmp.\<close>

definition tempDir :: "'o os \<Rightarrow> ('o, path) state" where
  "tempDir os = do {
     d \<leftarrow> os_Getenv os ''TMPDIR'';
     State_Monad.return (if d = '''' then ''/tmp'' else d)
   }"

text \<open>A \<open>time.Duration\<close> is a signed 64-bit count of nanoseconds.\<close>

definition wrap64 :: "int \<Rightarrow> int" where
  "wrap64 n = (n + 2 ^ 63) mod 2 ^ 64 - 2 ^ 63"

definition seconds :: "int \<Rightarrow> int" where
  "seconds n = wrap64 (n * 1000000000)"

text \<open>Where the state is kept, and the interval in nanoseconds.\<close>

definition supervisor_config :: "'o os \<Rightarrow> ('o, path \<times> int) state" where
  "supervisor_config os = do {
     b \<leftarrow> os_IsDir os ''/csi'';
     dir \<leftarrow> (if b then State_Monad.return ''/csi'' else tempDir os);
     v \<leftarrow> os_Getenv os superviseIntervalEnv;
     let interval = (if v \<noteq> '''' then case atoi v of Some n \<Rightarrow> seconds n | None \<Rightarrow> seconds defaultSuperviseSeconds
                     else seconds defaultSuperviseSeconds);
     State_Monad.return (path_join [dir, stateFileName], interval)
   }"

text \<open>The plugin with its state file settled, and the interval.\<close>

definition newSupervisor :: "'o plugin \<Rightarrow> ('o world, 'o plugin \<times> int) state" where
  "newSupervisor p = do {
     (stateFile, interval) \<leftarrow> outside_m (supervisor_config (pOS p));
     State_Monad.update (\<lambda>w. w\<lparr>vols := Map.empty, warming := Map.empty, watches := Map.empty\<rparr>);
     let p' = p\<lparr>pStateFile := stateFile\<rparr>;
     load p';
     State_Monad.return (p', interval)
   }"

section \<open>Made of critical sections\<close>

text \<open>
  A program follows the supervisor's steps when running it from any world is a path of them. What
  holds of every interleaving of critical sections then holds of its runs.
\<close>

definition follows :: "'o plugin \<Rightarrow> ('o world, 'a) state \<Rightarrow> bool" where
  "follows p m \<longleftrightarrow> (\<forall>w. (sup_step p)\<^sup>*\<^sup>* w (exec m w))"

named_theorems follows_intros \<open>one rule per construct and operation\<close>

lemma follows_return [follows_intros]: "follows p (State_Monad.return a)"
  by (simp add: follows_def)

lemma follows_get [follows_intros]: "follows p State_Monad.get"
  by (simp add: follows_def)

lemma follows_bind [follows_intros]:
  "follows p m \<Longrightarrow> (\<And>w. follows p (f (val_of m w))) \<Longrightarrow> follows p (State_Monad.bind m f)"
  by (auto simp: follows_def intro: rtranclp_trans)

lemma follows_case_option [follows_intros]:
  "(x = None \<Longrightarrow> follows p m) \<Longrightarrow> (\<And>a. x = Some a \<Longrightarrow> follows p (f a)) \<Longrightarrow>
    follows p (case x of None \<Rightarrow> m | Some a \<Rightarrow> f a)"
  by (cases x) simp_all

lemma follows_case_sum [follows_intros]:
  "(\<And>e. x = Inl e \<Longrightarrow> follows p (f e)) \<Longrightarrow> (\<And>a. x = Inr a \<Longrightarrow> follows p (g a)) \<Longrightarrow>
    follows p (case x of Inl e \<Rightarrow> f e | Inr a \<Rightarrow> g a)"
  by (cases x) simp_all

lemma follows_case_prod [follows_intros]:
  "(\<And>a b. x = (a, b) \<Longrightarrow> follows p (f a b)) \<Longrightarrow> follows p (case x of (a, b) \<Rightarrow> f a b)"
  by (cases x) simp

lemma follows_if [follows_intros]:
  "(b \<Longrightarrow> follows p m) \<Longrightarrow> (\<not> b \<Longrightarrow> follows p n) \<Longrightarrow> follows p (if b then m else n)"
  by simp

lemma follows_iter [follows_intros]: "(\<And>x. x \<in> set xs \<Longrightarrow> follows p (f x)) \<Longrightarrow> follows p (iter_m f xs)"
  by (induction xs) (auto intro!: follows_intros)

lemma follows_outside [follows_intros]: "follows p (outside_m m)"
  by (auto simp: follows_def intro: outside_step)

lemma follows_section: "finite_args a \<Longrightarrow> follows p (run_section p a)"
  by (auto simp: follows_def intro: section_step)

lemma follows_sections [follows_intros]:
  "finite (dom vc) \<Longrightarrow> finite (dom se) \<Longrightarrow> follows p (recordStage p i sp vc se rw)"
  "follows p (dropVolume p i)" "follows p (recordPublish p i t)" "follows p (forgetPublish p i t)"
  "follows p (markDead p i d)" "follows p (sweepDead p keep)" "follows p (startWatch i)"
  "follows p (stopWatch i)" "follows p (warm i ps)" "follows p (stopWarm i)"
  using follows_section[of "RecordStage i sp vc se rw" p] follows_section[of "DropVolume i" p]
    follows_section[of "RecordPublish i t" p] follows_section[of "ForgetPublish i t" p]
    follows_section[of "MarkDead i d" p] follows_section[of "SweepDead keep" p]
    follows_section[of "StartWatch i" p] follows_section[of "StopWatch i" p]
    follows_section[of "Warm i ps" p] follows_section[of "StopWarm i" p]
  by simp_all

lemma follows_registry [follows_intros]:
  "follows p (forgetStage p i)" "follows p (ensureWatch i)" "follows p (ensureWatches p)" "follows p (graftHolders p)"
  unfolding forgetStage_def ensureWatch_def ensureWatches_def graftHolders_def dead_stages_def
  by (intro follows_intros)+

lemma follows_adopt [follows_intros]:
  "finite (dom vc) \<Longrightarrow> finite (dom se) \<Longrightarrow> follows p (adopt p i sp vc se rw d)"
  unfolding adopt_def by (intro follows_intros)

section \<open>Requests\<close>

datatype request =
    StageReq NodeStageRequest
  | UnstageReq string path
  | PublishReq NodePublishRequest
  | UnpublishReq string path

fun serve :: "'o plugin \<Rightarrow> request \<Rightarrow> ('o world, err option) state" where
  "serve p (StageReq r) = NodeStageVolume p r"
| "serve p (UnstageReq i sp) = NodeUnstageVolume p i sp"
| "serve p (PublishReq r) = NodePublishVolume p r"
| "serve p (UnpublishReq i t) = NodeUnpublishVolume p i t"

text \<open>The maps of a request, and of the objects the cluster hands out, are finite.\<close>

fun finite_request :: "request \<Rightarrow> bool" where
  "finite_request (StageReq r) \<longleftrightarrow> finite (dom (nsVolumeContext r)) \<and> finite (dom (nsSecrets r))"
| "finite_request (PublishReq r) \<longleftrightarrow> finite (dom (npVolumeContext r)) \<and> finite (dom (npSecrets r))"
| "finite_request _ \<longleftrightarrow> True"

definition finite_cluster :: "'o k8s option \<Rightarrow> bool" where
  "finite_cluster c \<longleftrightarrow> (case c of None \<Rightarrow> True | Some k \<Rightarrow>
     (\<forall>s items. val_of (list_PVs k) s = Inr items \<longrightarrow> (\<forall>v \<in> set items. finite (dom (pvVolumeAttributes v)))) \<and>
     (\<forall>ns n s data. val_of (get_Secret k ns n) s = Inr data \<longrightarrow> finite (dom data)))"

lemma follows_stage: "finite_request (StageReq r) \<Longrightarrow> follows p (NodeStageVolume p r)"
  unfolding NodeStageVolume_def Let_def by (intro follows_intros) simp_all

lemma follows_publish: "finite_request (PublishReq r) \<Longrightarrow> follows p (NodePublishVolume p r)"
  unfolding NodePublishVolume_def revive_def bind_target_def Let_def by (intro follows_intros) simp_all

lemma follows_unstage: "follows p (NodeUnstageVolume p i sp)"
  unfolding NodeUnstageVolume_def by (intro follows_intros)

lemma follows_unpublish: "follows p (NodeUnpublishVolume p i t)"
  unfolding NodeUnpublishVolume_def by (intro follows_intros)

lemma follows_serve: "finite_request r \<Longrightarrow> follows p (serve p r)"
  by (cases r) (simp_all add: follows_stage follows_publish follows_unstage follows_unpublish)

section \<open>The loop follows them too\<close>

lemma follows_heal [follows_intros]: "follows p (heal p v)"
  unfolding heal_def by (intro follows_intros)

lemma follows_checkAll [follows_intros]: "follows p (checkAll p)"
  unfolding checkAll_def check_one_def by (intro follows_intros)

lemma pv_info_attributes: "pv_info driver v = Some i \<Longrightarrow> piAttributes i = pvVolumeAttributes v"
  by (auto simp: pv_info_def split: if_splits)

lemma listPVs_finite:
  assumes "finite_cluster (pK8s p)"
  shows "\<forall>i \<in> set (val_of (listPVs p) s). finite (dom (piAttributes i))"
proof (cases "pK8s p")
  case (Some k)
  show ?thesis
  proof (cases "val_of (list_PVs k) s")
    case (Inr items)
    then have "\<forall>v \<in> set items. finite (dom (pvVolumeAttributes v))"
      using assms Some by (simp add: finite_cluster_def)
    moreover have "\<exists>v \<in> set items. pv_info (pDriver p) v = Some i"
      if "i \<in> set (List.map_filter (pv_info (pDriver p)) items)" for i
      using that by (auto simp: map_filter_def)
    ultimately show ?thesis using Some Inr by (fastforce simp: listPVs_def dest: pv_info_attributes)
  qed (simp add: listPVs_def Some)
qed (simp add: listPVs_def)

lemma stage_secrets_finite:
  "finite_cluster (pK8s p) \<Longrightarrow> val_of (stage_secrets p info) s = Some se \<Longrightarrow> finite (dom se)"
  by (auto simp: stage_secrets_def finite_cluster_def split: option.splits sum.splits if_splits)

lemma follows_adopt_staged:
  assumes "finite_cluster (pK8s p)" "\<forall>i \<in> set pvs. finite (dom (piAttributes i))"
  shows "follows p (adopt_staged p known pvs sps)"
  using assms(2)
proof (induction sps arbitrary: pvs)
  case (Cons sp sps)
  have found: "\<forall>i \<in> set q. finite (dom (piAttributes i)) \<Longrightarrow> find P q = Some info \<Longrightarrow> finite (dom (piAttributes info))"
    for q P info by (auto simp: find_Some_iff)
  have pvs: "\<forall>i \<in> set (val_of (if pvs = [] then outside_m (listPVs p) else State_Monad.return pvs) w). finite (dom (piAttributes i))"
    for w using Cons.prems listPVs_finite[OF assms(1)] by simp
  show ?case
    unfolding adopt_staged.simps
    by (intro follows_intros Cons.IH[OF pvs] Cons.IH[OF Cons.prems] found[OF pvs])
      (simp_all add: stage_secrets_finite[OF assms(1)])
qed (simp add: follows_intros)

lemma follows_discover: "finite_cluster (pK8s p) \<Longrightarrow> follows p (discover p)"
  unfolding discover_def adopt_publish_def by (intro follows_intros follows_adopt_staged) simp_all

lemma follows_ticks: "finite_cluster (pK8s p) \<Longrightarrow> follows p (ticks p n k)"
  by (induction k arbitrary: n) (auto simp: tick_def intro!: follows_intros follows_discover)

lemma follows_run: "finite_cluster (pK8s p) \<Longrightarrow> follows p (run p interval k)"
  unfolding run_def by (intro follows_intros follows_discover follows_ticks)

section \<open>A heal that succeeds\<close>

text \<open>Binding somewhere takes no mount away.\<close>

definition bind_keeps :: "'o os \<Rightarrow> ('o \<Rightarrow> path \<Rightarrow> bool) \<Rightarrow> bool" where
  "bind_keeps os mounted \<longleftrightarrow> (\<forall>q a b. keeps (\<lambda>s. mounted s q) (os_Run os ''mount'' (bind_args a b) []))"

lemma rebind_keeps: "bind_keeps os mounted \<Longrightarrow> keeps (\<lambda>s. mounted s q) (iter_m (rebind os sp) ts)"
  unfolding rebind_def by (intro keeps_intros) (simp add: bind_keeps_def)

lemma rebind_binds:
  assumes "bind_doc os mounted" "bind_keeps os mounted" "\<And>a b s. snd (val_of (os_Run os ''mount'' (bind_args a b) []) s)"
  shows "t \<in> set ts \<Longrightarrow> mounted (exec (iter_m (rebind os sp) ts) s) t"
proof (induction ts arbitrary: s)
  case (Cons u ts)
  show ?case
  proof (cases "t = u")
    case True
    have "mounted (exec (rebind os sp u) s) u" using assms(1,3) by (simp add: rebind_def bind_doc_def)
    from keepsD[OF rebind_keeps[OF assms(2)] this] True show ?thesis by simp
  next
    case False
    with Cons show ?thesis by simp
  qed
qed simp

text \<open>The outside in which a heal mounts again, and what it leaves behind.\<close>

definition detached :: "'o plugin \<Rightarrow> stagedVolume \<Rightarrow> 'o \<Rightarrow> 'o" where
  "detached p v s = exec (detach_all (pOS p) v) (exec (mountDevice (pOS p) ''/proc/self/mountinfo'' (svStagePath v)) s)"

abbreviation remount :: "'o plugin \<Rightarrow> stagedVolume \<Rightarrow> ('o, err option) state" where
  "remount p v \<equiv> mountStaged p (svVolumeID v) (svStagePath v) (svVolumeContext v) (svSecrets v)"

definition corpse :: "'o plugin \<Rightarrow> stagedVolume \<Rightarrow> 'o \<Rightarrow> string" where
  "corpse p v s = val_of (mountDevice (pOS p) ''/proc/self/mountinfo'' (svStagePath v)) s"

lemma stopWarm_outside: "exec (stopWarm i) (w\<lparr>outside := s\<rparr>) = (exec (stopWarm i) w)\<lparr>outside := s\<rparr>"
  by (simp add: exec_stopWarm split: option.split)

lemma exec_heal:
  "exec (heal p v) w =
     (let w2 = (exec (stopWarm (svVolumeID v)) w)\<lparr>outside := exec (remount p v) (detached p v (outside w))\<rparr> in
      if val_of (remount p v) (detached p v (outside w)) \<noteq> None then w2
      else let w3 = exec (startWatch (svVolumeID v)) w2;
               w4 = w3\<lparr>outside := exec (iter_m (rebind (pOS p) (svStagePath v)) (svPublishes v)) (outside w3)\<rparr>
           in exec (graftHolders p) (exec (markDead p (svVolumeID v) (corpse p v (outside w))) w4))"
  by (simp add: heal_def Let_def detached_def corpse_def stopWarm_outside)

lemma exec_heal_failed:
  "val_of (remount p v) (detached p v (outside w)) \<noteq> None \<Longrightarrow>
    exec (heal p v) w = (exec (stopWarm (svVolumeID v)) w)\<lparr>outside := exec (remount p v) (detached p v (outside w))\<rparr>"
  by (simp add: exec_heal Let_def)

lemma heal_there:
  assumes "mount_doc (pOS p) mounted" "steady_doc (pOS p) mounted" "bind_keeps (pOS p) mounted"
    and "val_of (remount p v) (detached p v (outside w)) = None"
  shows "mounted (outside (exec (heal p v) w)) (svStagePath v)"
proof -
  let ?s = "detached p v (outside w)"
  have m: "mounted (exec (remount p v) ?s) (svStagePath v)" by (rule mountStaged_there[OF assms(1,4)])
  note k = keepsD[OF steady_sections(7)[OF assms(2)]] keepsD[OF steady_sections(3)[OF assms(2)]]
  show ?thesis
    unfolding exec_heal Let_def using assms(4)
    by (simp add: walking.stop_rest)
      (intro k, simp add: exec_startWatch walking.stop_rest keepsD[OF rebind_keeps[OF assms(3)] m] split: option.split)
qed

section \<open>Properties\<close>

text \<open>C6. What requests and the loop do is a sequence of the supervisor's critical sections, for every
  request, every answer of the outside and any number of ticks. So the registry's invariant holds
  after any request and any run: entries filed under their own ID, publish targets sorted and
  dead devices distinct, no context shared between two goroutines' owners.\<close>

theorem service_follows_steps:
  assumes "finite_request r" "finite_cluster (pK8s p)"
  shows "(sup_step p)\<^sup>*\<^sup>* w (exec (serve p r) w) \<and> (sup_step p)\<^sup>*\<^sup>* w (exec (run p interval k) w) \<and>
    (sup_inv w \<longrightarrow> sup_inv (exec (serve p r) w) \<and> sup_inv (exec (run p interval k) w))"
proof -
  have s: "(sup_step p)\<^sup>*\<^sup>* w (exec (serve p r) w)" "(sup_step p)\<^sup>*\<^sup>* w (exec (run p interval k) w)"
    using follows_serve[OF assms(1), of p] follows_run[OF assms(2), of interval k] by (simp_all add: follows_def)
  then show ?thesis using sup_inv_reachable by metis
qed

theorem service_follows_steps_witness:
  "sup_inv (exec (serve idle_plugin (StageReq sample_stage)) (start_world ())) \<and>
   sup_inv (exec (run idle_plugin 30 12) (start_world ()))"
proof -
  have "finite_request (StageReq sample_stage)" "finite_cluster (pK8s (idle_plugin :: unit plugin))"
    by (simp_all add: sample_stage_def finite_cluster_def idle_plugin_def)
  from service_follows_steps[OF this, of "start_world ()" 30 12] start_inv[of "()"] show ?thesis by simp
qed


text \<open>A volume mounted by rclone, on record, on a node where everything works.\<close>

definition rclone_volume :: stagedVolume where
  "rclone_volume = \<lparr>svVolumeID = ''b/p'', svStagePath = ''/s'', svVolumeContext = [''mounter'' \<mapsto> ''rclone''],
     svSecrets = Map.empty, svPublishes = [], svRewarm = False, svDead = []\<rparr>"

definition rclone_world :: "unit world" where
  "rclone_world = exec (run_section idle_plugin
     (RecordStage ''b/p'' ''/s'' [''mounter'' \<mapsto> ''rclone''] Map.empty False)) (start_world ())"

lemma rclone_world_simps: "vols rclone_world = [''b/p'' \<mapsto> rclone_volume]" "sup_inv rclone_world"
proof -
  show "vols rclone_world = [''b/p'' \<mapsto> rclone_volume]"
    by (simp add: rclone_world_def vols_recordStage start_world_def rclone_volume_def)
  show "sup_inv rclone_world"
    unfolding rclone_world_def by (intro sup_inv_section start_inv) simp
qed

lemma rclone_target: "val_of (volumeTarget (idle_plugin :: 'o plugin) ''b/p'' [''mounter'' \<mapsto> ''rclone''] Map.empty) s =
    Inr (clConfig c, c, getMeta ''b'' ''p'' [''mounter'' \<mapsto> ''rclone''])"
  if "NewClientFromSecret (pDeps (idle_plugin :: 'o plugin)) Map.empty = Inr c" "CfgBucket (clConfig c) = ''''" for c
  using that bucketPrefix_pair[of "''b''" "''p''"]
  by (simp add: volumeTarget_def Let_def secretsForVolume_def bucketAccessNameKey_def mget_def)

lemma idle_client: "\<exists>c. NewClientFromSecret (pDeps idle_plugin) Map.empty = Inr c \<and> CfgBucket (clConfig c) = ''''"
  by (auto simp: NewClientFromSecret_def NewClient_def Let_def idle_plugin_def)

lemma rclone_remount: "val_of (remount (idle_plugin :: 'o plugin) rclone_volume) s = None"
proof -
  obtain c where c: "NewClientFromSecret (pDeps (idle_plugin :: 'o plugin)) Map.empty = Inr c" "CfgBucket (clConfig c) = ''''"
    using idle_client by blast
  have "mget [''mounter'' \<mapsto> ''rclone''] ''mounter'' = ''rclone''" by (simp add: mget_def)
  then show ?thesis
    by (simp add: mountStaged_def rclone_volume_def rclone_target[OF c] New_def getMeta_def Let_def rclone_Mount_def
        fuseMount_def waitForMount_round(1) idle_answers split: prod.split)
qed


section \<open>Probing what is healthy\<close>

text \<open>\<open>statfs\<close> tells a dead endpoint and changes none.\<close>

definition probe_doc :: "'o os \<Rightarrow> ('o \<Rightarrow> path \<Rightarrow> bool) \<Rightarrow> bool" where
  "probe_doc os dead_at \<longleftrightarrow> (\<forall>x s. fst (val_of (mountDead os x) s) = dead_at s x \<and>
     dead_at (exec (mountDead os x) s) = dead_at s)"

text \<open>Probing a volume once, as the outside sees it.\<close>

definition probe :: "'o plugin \<Rightarrow> stagedVolume \<Rightarrow> 'o \<Rightarrow> 'o" where
  "probe p v s = exec (mountDead (pOS p) (svStagePath v)) s"

lemma check_one_healthy:
  "\<not> fst (val_of (mountDead (pOS p) (svStagePath v)) (outside w)) \<Longrightarrow>
    exec (check_one p v) w = w\<lparr>outside := probe p v (outside w)\<rparr>"
  by (auto simp: check_one_def probe_def split: prod.split)

lemma range_single: "range_doc os \<Longrightarrow> val_of (rt_range os {i}) s = [i] \<and> exec (rt_range os {i}) s = s"
proof -
  assume "range_doc os"
  then have ids: "set (val_of (rt_range os {i}) s) = {i}" "distinct (val_of (rt_range os {i}) s)"
    "exec (rt_range os {i}) s = s" by (simp_all add: range_doc_def)
  have "xs = [i]" if "set xs = {i}" "distinct xs" for xs
    using that by (induction xs) (auto simp: subset_singleton_iff)
  from this[OF ids(1,2)] ids(3) show ?thesis by simp
qed

lemma checkAll_single:
  "range_doc (pOS p) \<Longrightarrow> vols w = [i \<mapsto> v] \<Longrightarrow> exec (checkAll p) w = exec (check_one p v) w"
  by (simp add: checkAll_def range_single)


text \<open>
  A heal works on a copy of the volume taken before: when the volume was unstaged meanwhile, its
  remount leaves a mount that nothing records, watches or unmounts.
\<close>

theorem heal_unstaged_leaks:
  assumes "mount_doc (pOS p) mounted" "steady_doc (pOS p) mounted" "bind_keeps (pOS p) mounted"
    and "val_of (remount p v) (detached p v (outside w)) = None" "vols w (svVolumeID v) = None"
  shows "mounted (outside (exec (heal p v) w)) (svStagePath v) \<and> vols (exec (heal p v) w) (svVolumeID v) = None \<and>
    watches (exec (heal p v) w) = watches w"
proof -
  let ?i = "svVolumeID v"
  let ?w2 = "(exec (stopWarm ?i) w)\<lparr>outside := exec (remount p v) (detached p v (outside w))\<rparr>"
  have w3: "exec (startWatch ?i) ?w2 = ?w2" using assms(5) by (simp add: exec_startWatch exec_stopWarm)
  let ?w4 = "?w2\<lparr>outside := exec (iter_m (rebind (pOS p) (svStagePath v)) (svPublishes v)) (outside ?w2)\<rparr>"
  let ?w5 = "exec (markDead p ?i (corpse p v (outside w))) ?w4"
  have e: "exec (heal p v) w = exec (graftHolders p) ?w5"
    using assms(4) by (simp add: exec_heal Let_def w3 del: exec_iter_Cons)
  have "same_tasks ?w4 (exec (heal p v) w)"
    using same_tasks_volumes(5)[of ?w4 p ?i] graftHolders_tasks[of ?w5 p] unfolding e by (simp add: same_tasks_def)
  then have "watches (exec (heal p v) w) = watches w" by (simp add: same_tasks_def exec_stopWarm)
  moreover have "vols ?w5 ?i = None" using assms(5) by (simp add: vols_markDead exec_stopWarm)
  then have "vols (exec (heal p v) w) ?i = None" unfolding e using graftHolders_vols[of p ?w5 ?i] by auto
  ultimately show ?thesis using heal_there[OF assms(1-4)] by simp
qed

text \<open>A node whose endpoints die and are detached, and where rclone does not run. Its state is the set of dead paths.\<close>

definition dying_os :: "path set os" where
  "dying_os = idle_os\<lparr>os_Statfs := \<lambda>x. State (\<lambda>s. (if x \<in> s then Some ENOTCONN else None, s)),
     os_DetachUnmount := \<lambda>x. State (\<lambda>s. (None, s - {x})), os_Run := \<lambda>cmd args env. State_Monad.return ('''', False)\<rparr>"

definition dying_plugin :: "path set plugin" where
  "dying_plugin = idle_plugin\<lparr>pOS := dying_os\<rparr>"

lemma dying_docs: "probe_doc dying_os (\<lambda>s x. x \<in> s)" "range_doc dying_os"
proof -
  show "probe_doc dying_os (\<lambda>s x. x \<in> s)" by (simp add: probe_doc_def mountDead_def dying_os_def)
  show "range_doc dying_os" using idle_range by (simp add: range_doc_def dying_os_def idle_os_def)
qed

lemma dying_remount: "val_of (remount dying_plugin rclone_volume) s \<noteq> None" "exec (remount dying_plugin rclone_volume) s = s"
proof -
  obtain c where c: "NewClientFromSecret (pDeps dying_plugin) Map.empty = Inr c" "CfgBucket (clConfig c) = ''''"
    by (auto simp: NewClientFromSecret_def NewClient_def Let_def dying_plugin_def idle_plugin_def)
  have run: "os_Run (pOS dying_plugin) cmd args env = State_Monad.return ('''', False)" for cmd args env
    by (simp add: dying_plugin_def dying_os_def)
  have "val_of (remount dying_plugin rclone_volume) s \<noteq> None \<and> exec (remount dying_plugin rclone_volume) s = s"
    using c bucketPrefix_pair[of "''b''" "''p''"] run
    by (auto simp: mountStaged_def rclone_volume_def volumeTarget_def secretsForVolume_def bucketAccessNameKey_def
        mget_def New_def getMeta_def Let_def rclone_Mount_def fuseMount_def)
  then show "val_of (remount dying_plugin rclone_volume) s \<noteq> None" "exec (remount dying_plugin rclone_volume) s = s"
    by simp_all
qed


section \<open>What discovery may change\<close>

definition same_params :: "stagedVolume \<Rightarrow> stagedVolume \<Rightarrow> bool" where
  "same_params v v' \<longleftrightarrow> svStagePath v' = svStagePath v \<and> svVolumeContext v' = svVolumeContext v \<and>
     svSecrets v' = svSecrets v \<and> svRewarm v' = svRewarm v"

text \<open>
  No watch, walk or goroutine is touched; a volume stays, with its targets and its dead devices; one
  whose parameters are new is staged at a mount of this driver that was not known; and a target that
  is new is the mount of a pod's volume.
\<close>

definition adoption :: "'o plugin \<Rightarrow> path set \<Rightarrow> 'o world \<Rightarrow> 'o world \<Rightarrow> bool" where
  "adoption p known w w' \<longleftrightarrow> same_tasks w w' \<and>
     (\<forall>i v. vols w i = Some v \<longrightarrow> (\<exists>v'. vols w' i = Some v' \<and> set (svPublishes v) \<subseteq> set (svPublishes v') \<and> svDead v' = svDead v)) \<and>
     (\<forall>i v'. vols w' i = Some v' \<longrightarrow> (\<exists>v. vols w i = Some v \<and> same_params v v') \<or>
        own_staging (pDriver p) (svStagePath v') \<and> svStagePath v' \<notin> known \<and> i \<noteq> '''') \<and>
     (\<forall>i v'. vols w' i = Some v' \<longrightarrow> (\<forall>t \<in> set (svPublishes v'). own_publish t \<or>
        (\<exists>v. vols w i = Some v \<and> t \<in> set (svPublishes v))))"

lemma adoption_same: "same_registry w w' \<Longrightarrow> adoption p known w w'"
  by (auto simp: adoption_def same_registry_def same_params_def)

lemma adoption_trans:
  assumes "adoption p known w w'" "adoption p known w' w''"
  shows "adoption p known w w''"
proof -
  have "same_tasks w w''" using assms by (simp add: adoption_def same_tasks_def)
  moreover have "\<exists>v'. vols w'' i = Some v' \<and> set (svPublishes v) \<subseteq> set (svPublishes v') \<and> svDead v' = svDead v"
    if "vols w i = Some v" for i v
  proof -
    from assms(1) that obtain v1 where v1: "vols w' i = Some v1" "set (svPublishes v) \<subseteq> set (svPublishes v1)" "svDead v1 = svDead v"
      unfolding adoption_def by blast
    from assms(2) v1(1) obtain v2 where "vols w'' i = Some v2" "set (svPublishes v1) \<subseteq> set (svPublishes v2)" "svDead v2 = svDead v1"
      unfolding adoption_def by blast
    with v1 show ?thesis by auto
  qed
  moreover have "(\<exists>v. vols w i = Some v \<and> same_params v v') \<or>
      own_staging (pDriver p) (svStagePath v') \<and> svStagePath v' \<notin> known \<and> i \<noteq> ''''"
    if "vols w'' i = Some v'" for i v'
  proof (rule disjCI)
    assume "\<not> (own_staging (pDriver p) (svStagePath v') \<and> svStagePath v' \<notin> known \<and> i \<noteq> '''')"
    with assms(2) that obtain v1 where v1: "vols w' i = Some v1" "same_params v1 v'"
      unfolding adoption_def by blast
    moreover have "svStagePath v1 = svStagePath v'" using v1(2) by (simp add: same_params_def)
    ultimately obtain v where "vols w i = Some v" "same_params v v1"
      using assms(1) \<open>\<not> _\<close> unfolding adoption_def by metis
    with v1(2) show "\<exists>v. vols w i = Some v \<and> same_params v v'" by (auto simp: same_params_def)
  qed
  moreover have "own_publish t \<or> (\<exists>v. vols w i = Some v \<and> t \<in> set (svPublishes v))"
    if "vols w'' i = Some v'" "t \<in> set (svPublishes v')" for i v' t
    using assms that unfolding adoption_def by blast
  ultimately show ?thesis unfolding adoption_def by blast
qed

definition adopts :: "'o plugin \<Rightarrow> path set \<Rightarrow> ('o world, 'a) state \<Rightarrow> bool" where
  "adopts p known m \<longleftrightarrow> (\<forall>w. adoption p known w (exec m w))"

lemma adopts_return: "adopts p known (State_Monad.return a)"
  by (simp add: adopts_def adoption_same same_registry_def same_tasks_def)

lemma adopts_outside: "adopts p known (outside_m m)"
  by (simp add: adopts_def adoption_same)

lemma adopts_bind: "adopts p known m \<Longrightarrow> (\<And>a. adopts p known (f a)) \<Longrightarrow> adopts p known (State_Monad.bind m f)"
  by (auto simp: adopts_def intro: adoption_trans)

lemma adopts_option:
  "adopts p known m \<Longrightarrow> (\<And>a. adopts p known (f a)) \<Longrightarrow> adopts p known (case x of None \<Rightarrow> m | Some a \<Rightarrow> f a)"
  by (cases x) simp_all

lemma adopts_if: "(b \<Longrightarrow> adopts p known m) \<Longrightarrow> (\<not> b \<Longrightarrow> adopts p known n) \<Longrightarrow> adopts p known (if b then m else n)"
  by simp

lemma adopts_stage:
  "own_staging (pDriver p) sp \<Longrightarrow> sp \<notin> known \<Longrightarrow> i \<noteq> '''' \<Longrightarrow> adopts p known (recordStage p i sp vc se rw)"
  by (auto simp: adopts_def adoption_def same_tasks_volumes vols_recordStage same_params_def split: option.splits)

lemma adopts_publish: "own_publish t \<Longrightarrow> adopts p known (recordPublish p i t)"
  by (auto simp: adopts_def adoption_def same_tasks_volumes vols_recordPublish same_params_def publishes.set_add
      split: option.splits if_splits)

lemmas adopts_intros = adopts_return adopts_outside adopts_bind adopts_option adopts_if adopts_stage adopts_publish

lemma adopts_staged: "\<forall>sp \<in> set sps. own_staging (pDriver p) sp \<Longrightarrow> adopts p known (adopt_staged p known pvs sps)"
proof (induction sps arbitrary: pvs)
  case (Cons sp sps)
  then have own: "own_staging (pDriver p) sp" and rest: "\<And>pvs. adopts p known (adopt_staged p known pvs sps)" by simp_all
  show ?case
    unfolding adopt_staged.simps
    by (rule adopts_if, rule rest, rule adopts_bind, rule adopts_outside, rule adopts_if, rule rest,
        rule adopts_bind, rule adopts_if, rule adopts_outside, rule adopts_return, rule adopts_option, rule rest,
        rule adopts_bind, rule adopts_outside, rule adopts_option, rule rest, rule adopts_bind,
        rule adopts_stage[OF own], assumption, assumption, rule rest)
qed (simp add: adopts_return)

lemma adopts_published:
  "\<forall>t \<in> set ts. own_publish t \<Longrightarrow> adopts p known (iter_m (adopt_publish p handles) ts)"
proof (induction ts)
  case (Cons t ts)
  then show ?case unfolding iter_m.simps adopt_publish_def by (intro adopts_intros) simp_all
qed (simp add: adopts_return)

lemma scan_own:
  "val_of (scanOwnMounts os driver) s = (staged, published) \<Longrightarrow>
    (\<forall>sp \<in> set staged. own_staging driver sp) \<and> (\<forall>t \<in> set published. own_publish t)"
  by (auto simp: scanOwnMounts_def scan_mounts_def Let_def split: sum.splits)

text \<open>C16. Discovery only adopts. Whatever the mount table, the kubelet's files and the cluster say, it
  touches no watch and no walk, removes no volume, target or dead device, and gives parameters only to
  a volume with a mount of this driver at a staging path that no volume was known to have; the targets
  it adds are mounts of pods' volumes.\<close>

theorem discover_only_adopts: "adoption p (known_stages w) w (exec (discover p) w)"
proof -
  obtain staged published where scan: "val_of (scanOwnMounts (pOS p) (pDriver p)) (outside w) = (staged, published)"
    by fastforce
  let ?w = "w\<lparr>outside := exec (scanOwnMounts (pOS p) (pDriver p)) (outside w)\<rparr>"
  let ?a = "adopt_staged p (known_stages w) [] staged"
  have known: "known_stages ?w = known_stages w" by (simp add: known_stages_def)
  have none: "adoption p (known_stages w) w ?w" by (rule adoption_same) simp
  show ?thesis
  proof (cases "staged = [] \<and> published = []")
    case True
    with scan none show ?thesis by (simp add: discover_def)
  next
    case False
    with scan known have "exec (discover p) w =
        exec (iter_m (adopt_publish p (dom (vols (exec ?a ?w)))) published) (exec ?a ?w)"
      by (simp add: discover_def)
    moreover have "adoption p (known_stages w) ?w (exec ?a ?w)"
      using adopts_staged[of staged p] scan_own[OF scan] by (simp add: adopts_def)
    moreover have "adoption p (known_stages w) (exec ?a ?w)
        (exec (iter_m (adopt_publish p (dom (vols (exec ?a ?w)))) published) (exec ?a ?w))"
      using adopts_published[of published p "known_stages w"] scan_own[OF scan] unfolding adopts_def by blast
    ultimately show ?thesis using none adoption_trans by metis
  qed
qed

end
