(* ===== verification/Restart.thy ===== *)
theory Restart
  imports Supervisor
begin

text \<open>
  The state file across restarts: what persist leaves on the file system, at any failure of its two
  steps, and what a supervisor that starts from it recovers. The encoding at the start shows that
  the one property used of encoding/json can hold.
\<close>

section \<open>An encoding of documents\<close>

fun enc_str :: "string \<Rightarrow> string" where
  "enc_str [] = [CHR ''e'']"
| "enc_str (c # cs) = CHR ''c'' # c # enc_str cs"

fun dec_str :: "string \<Rightarrow> (string \<times> string) option" where
  "dec_str (m # r) =
     (if m = CHR ''e'' then Some ([], r)
      else case r of [] \<Rightarrow> None | c # r' \<Rightarrow> map_option (\<lambda>(s, q). (c # s, q)) (dec_str r'))"
| "dec_str [] = None"

lemma dec_enc_str: "dec_str (enc_str s @ r) = Some (s, r)"
  by (induction s) auto

fun enc :: "json \<Rightarrow> string" where
  "enc JNull = ''n''"
| "enc (JBool b) = (if b then ''t'' else ''f'')"
| "enc (JStr s) = CHR ''s'' # enc_str s"
| "enc (JArr js) = CHR ''a'' # concat (map enc js) @ ''z''"
| "enc (JObj kvs) = CHR ''o'' # concat (map (\<lambda>(k, j). enc_str k @ enc j) kvs) @ ''z''"

text \<open>The decoder; its fuel bounds the calls, twice the length of the text is enough.\<close>

fun dec :: "nat \<Rightarrow> string \<Rightarrow> (json \<times> string) option"
  and dec_arr :: "nat \<Rightarrow> string \<Rightarrow> (json list \<times> string) option"
  and dec_obj :: "nat \<Rightarrow> string \<Rightarrow> ((string \<times> json) list \<times> string) option" where
  "dec (Suc n) (m # r) =
     (if m = CHR ''n'' then Some (JNull, r)
      else if m = CHR ''t'' then Some (JBool True, r)
      else if m = CHR ''f'' then Some (JBool False, r)
      else if m = CHR ''s'' then map_option (\<lambda>(s, q). (JStr s, q)) (dec_str r)
      else if m = CHR ''a'' then map_option (\<lambda>(js, q). (JArr js, q)) (dec_arr n r)
      else if m = CHR ''o'' then map_option (\<lambda>(kvs, q). (JObj kvs, q)) (dec_obj n r)
      else None)"
| "dec _ _ = None"
| "dec_arr (Suc n) r =
     (if r \<noteq> [] \<and> hd r = CHR ''z'' then Some ([], tl r)
      else case dec n r of None \<Rightarrow> None
      | Some (j, q) \<Rightarrow> map_option (\<lambda>(js, q'). (j # js, q')) (dec_arr n q))"
| "dec_arr 0 _ = None"
| "dec_obj (Suc n) r =
     (if r \<noteq> [] \<and> hd r = CHR ''z'' then Some ([], tl r)
      else case dec_str r of None \<Rightarrow> None
      | Some (k, q) \<Rightarrow>
         (case dec n q of None \<Rightarrow> None
          | Some (j, q') \<Rightarrow> map_option (\<lambda>(kvs, q''). ((k, j) # kvs, q'')) (dec_obj n q')))"
| "dec_obj 0 _ = None"

lemma enc_first: "enc j \<noteq> [] \<and> hd (enc j) \<noteq> CHR ''z''" "enc_str s \<noteq> [] \<and> hd (enc_str s) \<noteq> CHR ''z''"
  by (cases j; simp) (cases s; simp)

lemma dec_arr_back:
  assumes "\<And>j n r. j \<in> set js \<Longrightarrow> 2 * length (enc j) \<le> n \<Longrightarrow> dec n (enc j @ r) = Some (j, r)"
  shows "2 * length (concat (map enc js)) < n \<Longrightarrow> dec_arr n (concat (map enc js) @ CHR ''z'' # r) = Some (js, r)"
  using assms
proof (induction js arbitrary: n)
  case Nil
  then show ?case by (cases n) auto
next
  case (Cons j js)
  then obtain m where n: "n = Suc m" by (cases n) auto
  have "Suc 0 \<le> length (enc j)" using enc_first(1)[of j] by (cases "enc j") auto
  then have fuel: "2 * length (concat (map enc js)) < m" using Cons.prems(1) n by simp
  have "dec m (enc j @ concat (map enc js) @ CHR ''z'' # r) = Some (j, concat (map enc js) @ CHR ''z'' # r)"
    using Cons.prems n by (intro Cons.prems(2)) auto
  moreover have "dec_arr m (concat (map enc js) @ CHR ''z'' # r) = Some (js, r)"
    using Cons.prems(2) fuel by (intro Cons.IH) auto
  ultimately show ?case using enc_first(1)[of j] n by simp
qed

lemma dec_obj_back:
  assumes "\<And>k j n r. (k, j) \<in> set kvs \<Longrightarrow> 2 * length (enc j) \<le> n \<Longrightarrow> dec n (enc j @ r) = Some (j, r)"
  shows "2 * length (concat (map (\<lambda>(k, j). enc_str k @ enc j) kvs)) < n \<Longrightarrow>
    dec_obj n (concat (map (\<lambda>(k, j). enc_str k @ enc j) kvs) @ CHR ''z'' # r) = Some (kvs, r)"
  using assms
proof (induction kvs arbitrary: n)
  case Nil
  then show ?case by (cases n) auto
next
  case (Cons kv kvs)
  obtain k j where kv: "kv = (k, j)" by fastforce
  from Cons.prems obtain m where n: "n = Suc m" by (cases n) auto
  let ?rest = "concat (map (\<lambda>(k, j). enc_str k @ enc j) kvs) @ CHR ''z'' # r"
  have "Suc 0 \<le> length (enc j)" using enc_first(1)[of j] by (cases "enc j") auto
  then have fuel: "2 * length (concat (map (\<lambda>(k, j). enc_str k @ enc j) kvs)) < m" using Cons.prems(1) n kv by simp
  have "dec m (enc j @ ?rest) = Some (j, ?rest)"
    using Cons.prems n kv by (intro Cons.prems(2)[of k]) auto
  moreover have "dec_obj m ?rest = Some (kvs, r)"
    using Cons.prems(2) fuel kv by (intro Cons.IH) auto
  ultimately show ?case using enc_first(2)[of k] n kv by (simp add: dec_enc_str)
qed

lemma dec_leaf:
  "n \<noteq> 0 \<Longrightarrow> dec n (CHR ''n'' # r) = Some (JNull, r)"
  "n \<noteq> 0 \<Longrightarrow> dec n ((if b then ''t'' else ''f'') @ r) = Some (JBool b, r)"
  "n \<noteq> 0 \<Longrightarrow> dec n (CHR ''s'' # enc_str s @ r) = Some (JStr s, r)"
  by (cases n; simp add: dec_enc_str)+

lemma dec_enc: "2 * length (enc j) \<le> n \<Longrightarrow> dec n (enc j @ r) = Some (j, r)"
proof (induction j arbitrary: n r rule: enc.induct)
  case (4 js)
  then obtain m where "n = Suc m" "2 * length (concat (map enc js)) < m" by (cases n) auto
  with dec_arr_back[of js m r] 4 show ?case by simp
next
  case (5 kvs)
  then obtain m where "n = Suc m" "2 * length (concat (map (\<lambda>(k, j). enc_str k @ enc j) kvs)) < m" by (cases n) auto
  with dec_obj_back[of kvs m r] 5 show ?case by (simp add: case_prod_unfold)
next
  case (2 b)
  then have "n \<noteq> 0" by (cases b) auto
  then show ?case unfolding enc.simps by (rule dec_leaf)
qed (simp_all add: dec_leaf)

definition read_doc :: "string \<Rightarrow> json option" where
  "read_doc t = map_option fst (dec (2 * length t) t)"

lemma read_enc: "read_doc (enc j) = Some j"
  using dec_enc[of j "2 * length (enc j)" "[]"] by (simp add: read_doc_def)

section \<open>The file on disk\<close>

text \<open>
  What is used of the file system: a file written or renamed with success is there, a write that
  fails spoils at most the file it was writing, a rename that fails changes nothing, a file that is
  there can be read, and asking for a directory or the environment changes no file.
\<close>

definition store_doc :: "'o os \<Rightarrow> ('o \<Rightarrow> path \<Rightarrow> string option) \<Rightarrow> bool" where
  "store_doc os file \<longleftrightarrow>
     (\<forall>q t m s. if val_of (os_WriteFile os q t m) s = None then file (exec (os_WriteFile os q t m) s) = (file s)(q \<mapsto> t)
        else \<forall>r. r \<noteq> q \<longrightarrow> file (exec (os_WriteFile os q t m) s) r = file s r) \<and>
     (\<forall>a b s. file (exec (os_Rename os a b) s) = (if val_of (os_Rename os a b) s = None
        then (file s)(a := None, b := file s a) else file s)) \<and>
     (\<forall>q s t. file s q = Some t \<longrightarrow> val_of (os_ReadFile os q) s = Inr t) \<and>
     (\<forall>q s. file (exec (os_IsDir os q) s) = file s) \<and> (\<forall>x s. file (exec (os_Getenv os x) s) = file s)"

lemma config_file: "store_doc os file \<Longrightarrow> file (exec (supervisor_config os) s) = file s"
  by (simp add: store_doc_def supervisor_config_def tempDir_def Let_def)

text \<open>Whether both steps of persist succeed.\<close>

definition tmp_name :: "'o plugin \<Rightarrow> path" where
  "tmp_name p = pStateFile p @ ''.tmp''"

definition saved :: "'o plugin \<Rightarrow> 'o world \<Rightarrow> bool" where
  "saved p w \<longleftrightarrow> (let wr = os_WriteFile (pOS p) (tmp_name p) (pMarshal p (json_vols (vols w))) 384 in
     val_of wr (outside w) = None \<and> val_of (os_Rename (pOS p) (tmp_name p) (pStateFile p)) (exec wr (outside w)) = None)"

lemma persist_file:
  assumes "store_doc (pOS p) file"
  shows "file (outside (exec (persist p) w)) (pStateFile p) =
    (if saved p w then Some (pMarshal p (json_vols (vols w))) else file (outside w) (pStateFile p))"
proof -
  have ne: "pStateFile p \<noteq> tmp_name p" "tmp_name p \<noteq> pStateFile p" by (simp_all add: tmp_name_def)
  let ?wr = "os_WriteFile (pOS p) (tmp_name p) (pMarshal p (json_vols (vols w))) 384"
  let ?mv = "os_Rename (pOS p) (tmp_name p) (pStateFile p)"
  have wr: "val_of ?wr (outside w) = None \<Longrightarrow>
      file (exec ?wr (outside w)) = (file (outside w))(tmp_name p \<mapsto> pMarshal p (json_vols (vols w)))"
    "val_of ?wr (outside w) \<noteq> None \<Longrightarrow> file (exec ?wr (outside w)) (pStateFile p) = file (outside w) (pStateFile p)"
    using assms ne unfolding store_doc_def by metis+
  have mv: "file (exec ?mv s) = (if val_of ?mv s = None
      then (file s)(tmp_name p := None, pStateFile p := file s (tmp_name p)) else file s)" for s
    using assms unfolding store_doc_def by blast
  have "exec (persist p) w = w\<lparr>outside := (if val_of ?wr (outside w) = None
      then exec ?mv (exec ?wr (outside w)) else exec ?wr (outside w))\<rparr>"
    by (simp add: persist_def Let_def tmp_name_def)
  then show ?thesis using wr mv ne by (simp add: saved_def Let_def)
qed

text \<open>The bytes on disk decide what is recovered.\<close>

definition recovered :: "'o plugin \<Rightarrow> string option \<Rightarrow> (string \<rightharpoonup> stagedVolume)" where
  "recovered p b = (case Option.bind (Option.bind b (pUnmarshal p)) vols_of of None \<Rightarrow> Map.empty | Some m \<Rightarrow> m)"

lemma start_vols:
  assumes "store_doc (pOS p) file" "fst (val_of (supervisor_config (pOS p)) (outside w)) = pStateFile p"
    and "file (outside w) (pStateFile p) = Some b"
  shows "vols (exec (newSupervisor p) w) = recovered p (Some b)"
proof -
  let ?s = "exec (supervisor_config (pOS p)) (outside w)"
  have "file ?s (pStateFile p) = Some b" using assms(3) config_file[OF assms(1)] by simp
  then have "val_of (os_ReadFile (pOS p) (pStateFile p)) ?s = Inr b" using assms(1) unfolding store_doc_def by blast
  moreover have "p\<lparr>pStateFile := pStateFile p\<rparr> = p" by simp
  ultimately show ?thesis
    using assms(2)
    by (auto simp: newSupervisor_def load_def recovered_def Let_def split: prod.split option.split sum.split)
qed

section \<open>Properties\<close>


text \<open>A file system: the state is the map of its files.\<close>

definition disk_os :: "(path \<Rightarrow> string option) os" where
  "disk_os = idle_os\<lparr>
     os_WriteFile := \<lambda>q t m. State (\<lambda>s. (None, s(q \<mapsto> t))),
     os_Rename := \<lambda>a b. State (\<lambda>s. (None, s(a := None, b := s a))),
     os_ReadFile := \<lambda>q. State (\<lambda>s. (case s q of None \<Rightarrow> Inl (ENOENT, ''no such file'') | Some t \<Rightarrow> Inr t, s))\<rparr>"

definition disk_plugin :: "(path \<Rightarrow> string option) plugin" where
  "disk_plugin = idle_plugin\<lparr>pOS := disk_os, pStateFile := ''/csi/supervisor-state.json'',
     pMarshal := enc, pUnmarshal := read_doc\<rparr>"

definition disk_world :: "(path \<Rightarrow> string option) world" where
  "disk_world = exec (run_section disk_plugin (RecordStage ''b/p'' ''/s'' [''mounter'' \<mapsto> ''rclone''] Map.empty False))
     (start_world Map.empty)"

lemma disk_docs: "json_doc disk_plugin" "store_doc disk_os (\<lambda>s. s)" "sup_inv disk_world"
proof -
  show "json_doc disk_plugin" by (simp add: json_doc_def disk_plugin_def read_enc)
  show "store_doc disk_os (\<lambda>s. s)" by (simp add: store_doc_def disk_os_def idle_os_def)
  show "sup_inv disk_world" unfolding disk_world_def by (intro sup_inv_section start_inv) simp
qed

lemma disk_config: "fst (val_of (supervisor_config disk_os) s) = ''/csi/supervisor-state.json''"
proof -
  have "path_join [''/csi'', stateFileName] = ''/csi/supervisor-state.json''"
    by (simp add: stateFileName_def path_join_def path_clean_def rooted_def)
  then show ?thesis by (simp add: supervisor_config_def Let_def disk_os_def idle_os_def)
qed


end
