(* ===== verification/Listen.thy ===== *)
theory Listen
  imports S3Client
begin

text \<open>
  Following the changes of a bucket (pkg/s3/listen.go): the request, the classes of answers, the
  watchdog that ends a connection silent for \<open>listenIdle\<close>, and the keys reported. The server and
  \<open>net/http\<close> are an \<open>exchange\<close>: what the request is answered with and when, and the records the
  JSON decoder takes from the stream, each with the time that passed since the one before. Times are
  milliseconds from the request on.
\<close>

section \<open>The request\<close>

definition listenPing :: nat where "listenPing = 10000"
definition listenIdle :: nat where "listenIdle = 3 * listenPing"

definition emptySHA256 :: string where
  "emptySHA256 = ''e3b0c44298fc1c149afbf4c8996fb92427ae41e4649b934ca495991b7852b855''"

text \<open>
  The query before minio-go encodes it, the headers set, and what the request is signed with. The
  path holds the bucket's name as it is.
\<close>

record listenRequest =
  lrURL :: url
  lrPath :: string
  lrQuery :: "(string \<times> string list) list"
  lrHeader :: "(string \<times> string) list"
  lrSigner :: "string \<times> string \<times> string"  \<comment> \<open>access key, secret key, region\<close>

definition listen_request :: "Config \<Rightarrow> url \<Rightarrow> string \<Rightarrow> string \<Rightarrow> listenRequest" where
  "listen_request cfg u bucket pfx = \<lparr>lrURL = u, lrPath = CHR ''/'' # bucket,
     lrQuery = [(''ping'', [show_nat (listenPing div 1000)]), (''prefix'', [pfx]), (''suffix'', ['''']),
       (''events'', [''s3:ObjectCreated:*'', ''s3:ObjectRemoved:*''])],
     lrHeader = [(''X-Amz-Content-Sha256'', emptySHA256)],
     lrSigner = (AccessKeyID cfg, SecretAccessKey cfg, if Region cfg = '''' then ''us-east-1'' else Region cfg)\<rparr>"

section \<open>Keys\<close>

text \<open>\<open>url.QueryUnescape\<close>; None is its error.\<close>

definition unhex :: "char \<Rightarrow> nat option" where
  "unhex c = (let n = of_char c in
     if 48 \<le> n \<and> n \<le> 57 then Some (n - 48)
     else if 97 \<le> n \<and> n \<le> 102 then Some (n - 87)
     else if 65 \<le> n \<and> n \<le> 70 then Some (n - 55) else None)"

fun query_unescape :: "string \<Rightarrow> string option" where
  "query_unescape [] = Some []"
| "query_unescape (c # s) =
     (if c = CHR ''%'' then
        (case s of
           a # b # s' \<Rightarrow> (case (unhex a, unhex b) of
               (Some x, Some y) \<Rightarrow> map_option ((#) (char_of (16 * x + y))) (query_unescape s')
             | _ \<Rightarrow> None)
         | _ \<Rightarrow> None)
      else map_option ((#) (if c = CHR ''+'' then CHR '' '' else c)) (query_unescape s))"

text \<open>The keys of one record, as they are handed to \<open>changed\<close>.\<close>

definition listen_key :: "string \<Rightarrow> string" where
  "listen_key raw = (case query_unescape raw of None \<Rightarrow> raw | Some k \<Rightarrow> k)"

definition listen_keys :: "string list \<Rightarrow> string list" where
  "listen_keys raws = [k \<leftarrow> map listen_key raws. k \<noteq> '''']"

section \<open>The exchange\<close>

text \<open>
  \<open>Answer st body wait stream\<close>: the status, what reading at most 512 bytes of the body gives and
  how long it takes, and the records read from the body instead when the status is 200. A record is
  the object keys of one \<open>notification.Info\<close>, or the decoder's error.
\<close>

datatype answer =
    NoAnswer err
  | Answer nat string nat "(nat \<times> (err + string list)) list"

record exchange =
  exRequest :: "err option"  \<comment> \<open>an error of \<open>NewRequestWithContext\<close>\<close>
  exWait :: nat  \<comment> \<open>until the answer\<close>
  exAnswer :: answer

datatype report = Connected | Heard "string list"

text \<open>When the connection's context ends: with the caller's, or by the watchdog.\<close>

definition cutoff :: "nat option \<Rightarrow> nat \<Rightarrow> nat" where
  "cutoff ctxEnd now = (case ctxEnd of None \<Rightarrow> now + listenIdle | Some c \<Rightarrow> min c (now + listenIdle))"

text \<open>The error of a read that was cut off: nil when the caller's context did it.\<close>

definition cut_error :: "nat option \<Rightarrow> nat \<Rightarrow> string \<Rightarrow> err option" where
  "cut_error ctxEnd now msg = (case ctxEnd of
       Some c \<Rightarrow> if c \<le> now + listenIdle then None else Some (Errorf msg)
     | None \<Rightarrow> Some (Errorf msg))"

text \<open>The loop over the stream: what it reports and when, its error, and when it returns.\<close>

fun follow_stream :: "nat option \<Rightarrow> nat \<Rightarrow> (nat \<times> (err + string list)) list \<Rightarrow> (nat \<times> report) list \<times> err option \<times> nat" where
  "follow_stream c now [] = ([], cut_error c now ''listen: nothing from the server in 30s'', cutoff c now)"
| "follow_stream c now ((gap, r) # rest) =
     (if now + gap \<ge> cutoff c now
      then ([], cut_error c now ''listen: nothing from the server in 30s'', cutoff c now)
      else case r of
        Inl e \<Rightarrow> ([], Some (Errorf (''listen: '' @ error_text e)), now + gap)
      | Inr raws \<Rightarrow> (case follow_stream c (now + gap) rest of
          (reports, e, n) \<Rightarrow> ((now + gap, Heard (listen_keys raws)) # reports, e, n)))"

definition refusal :: "nat \<Rightarrow> string \<Rightarrow> err" where
  "refusal st body = (let t = trim_space (take 512 body) in
     if st \<ge> 500 \<and> st \<noteq> 501 then Errorf (''listen: HTTP '' @ show_nat st @ '': '' @ t) else Refused st t)"

definition Listen ::
  "s3deps \<Rightarrow> (listenRequest \<Rightarrow> exchange) \<Rightarrow> s3Client \<Rightarrow> string \<Rightarrow> string \<Rightarrow> nat option \<Rightarrow>
    (nat \<times> report) list \<times> err option \<times> nat" where
  "Listen d net client bucket pfx ctxEnd =
     (case url_Parse d (Endpoint (clConfig client)) of
        Inl e \<Rightarrow> ([], Some e, 0)
      | Inr u \<Rightarrow>
          let x = net (listen_request (clConfig client) u bucket pfx) in
          case exRequest x of Some e \<Rightarrow> ([], Some e, 0)
          | None \<Rightarrow>
              if exWait x \<ge> cutoff ctxEnd 0
              then ([], cut_error ctxEnd 0 ''listen: no answer from the server in 30s'', cutoff ctxEnd 0)
              else (case exAnswer x of
                NoAnswer e \<Rightarrow> ([], Some e, exWait x)
              | Answer st body wait stream \<Rightarrow>
                  if st \<noteq> 200 then ([], Some (refusal st body), min (exWait x + wait) (cutoff ctxEnd 0))
                  else (case follow_stream ctxEnd (exWait x) stream of
                    (reports, e, n) \<Rightarrow> ((exWait x, Connected) # reports, e, n))))"

section \<open>Escaped keys\<close>

text \<open>How MinIO writes a key into a record: \<open>url.QueryEscape\<close>.\<close>

definition hex_upper :: "nat \<Rightarrow> char" where
  "hex_upper n = (if n < 10 then char_of (48 + n) else char_of (55 + n))"

definition unreserved :: "char \<Rightarrow> bool" where
  "unreserved c = (let n = (of_char c :: nat) in
     48 \<le> n \<and> n \<le> 57 \<or> 65 \<le> n \<and> n \<le> 90 \<or> 97 \<le> n \<and> n \<le> 122 \<or> n \<in> {45, 46, 95, 126})"

definition escape_char :: "char \<Rightarrow> string" where
  "escape_char c = (if unreserved c then [c] else if c = CHR '' '' then ''+''
     else [CHR ''%'', hex_upper (of_char c div 16), hex_upper (of_char c mod 16)])"

definition query_escape :: "string \<Rightarrow> string" where
  "query_escape s = concat (map escape_char s)"

lemma unhex_upper: "n < 16 \<Longrightarrow> unhex (hex_upper n) = Some n"
  by (auto simp: unhex_def hex_upper_def Let_def)

lemma unreserved_plain: "unreserved c \<Longrightarrow> c \<noteq> CHR ''%'' \<and> c \<noteq> CHR ''+''"
  by (auto simp: unreserved_def)

lemma query_unescape_char: "query_unescape (escape_char c @ s) = map_option ((#) c) (query_unescape s)"
proof -
  have n: "of_char c < (256 :: nat)" by simp
  then have "of_char c div 16 < (16 :: nat)" "of_char c mod 16 < (16 :: nat)" by linarith+
  moreover have "char_of (16 * (of_char c div 16) + of_char c mod 16 :: nat) = c" by simp
  ultimately show ?thesis
    using unreserved_plain[of c] by (auto simp: escape_char_def unhex_upper)
qed

lemma query_roundtrip: "query_unescape (query_escape s) = Some s"
  by (induction s) (simp_all add: query_escape_def query_unescape_char)

lemma listen_key_escape: "listen_key (query_escape k) = k"
  by (simp add: listen_key_def query_roundtrip)

lemma listen_keys_escape: "'''' \<notin> set ks \<Longrightarrow> listen_keys (map query_escape ks) = ks"
  by (induction ks) (auto simp: listen_keys_def listen_key_escape)

section \<open>What the stream gives\<close>

text \<open>Every wait is shorter than \<open>listenIdle\<close>, up to the return, which comes \<open>listenIdle\<close> later at the latest.\<close>

fun beat :: "nat \<Rightarrow> nat list \<Rightarrow> nat \<Rightarrow> bool" where
  "beat now [] n \<longleftrightarrow> now \<le> n \<and> n \<le> now + listenIdle"
| "beat now (t # ts) n \<longleftrightarrow> now \<le> t \<and> t < now + listenIdle \<and> beat t ts n"

lemma cutoff_le: "cutoff c now \<le> now + listenIdle"
  by (simp add: cutoff_def split: option.split)

lemma cut_error_none: "cut_error c now msg = None \<longleftrightarrow> (\<exists>e. c = Some e \<and> e \<le> now + listenIdle)"
  by (simp add: cut_error_def split: option.split)

lemma cutoff_end: "c = Some e \<Longrightarrow> e \<le> now + listenIdle \<Longrightarrow> cutoff c now = e"
  by (simp add: cutoff_def)

lemma cut_error_some: "cut_error c now msg = Some e \<longleftrightarrow> e = Errorf msg \<and> (\<forall>t. c = Some t \<longrightarrow> now + listenIdle < t)"
  by (auto simp: cut_error_def split: option.splits if_splits)

lemma follow_beat:
  "follow_stream c now rs = (reports, e, n) \<Longrightarrow> (\<forall>e. c = Some e \<longrightarrow> now \<le> e) \<Longrightarrow> beat now (map fst reports) n"
proof (induction c now rs arbitrary: reports e n rule: follow_stream.induct)
  case (1 c now)
  then show ?case by (auto simp: cutoff_def split: option.splits)
next
  case (2 c now gap r rest)
  have cut: "now \<le> cutoff c now" using "2.prems"(2) by (auto simp: cutoff_def split: option.splits)
  show ?case
  proof (cases "now + gap \<ge> cutoff c now")
    case True
    with "2.prems"(1) cut show ?thesis using cutoff_le[of c now] by auto
  next
    case False
    then have later: "\<forall>e. c = Some e \<longrightarrow> now + gap \<le> e" by (auto simp: cutoff_def)
    have gap: "now + gap < now + listenIdle" using False cutoff_le[of c now] by simp
    show ?thesis
    proof (cases r)
      case (Inl x)
      with "2.prems"(1) False gap show ?thesis by auto
    next
      case (Inr raws)
      obtain reports' e' n' where rest: "follow_stream c (now + gap) rest = (reports', e', n')"
        by (metis prod_cases3)
      from "2.IH"[OF False Inr rest later] "2.prems"(1) False Inr rest gap show ?thesis by auto
    qed
  qed
qed

lemma follow_kind:
  "follow_stream c now rs = (reports, e, n) \<Longrightarrow>
    (e = None \<longrightarrow> c = Some n) \<and> (\<forall>x. e = Some x \<longrightarrow> (\<exists>m. x = Errorf m)) \<and> list_all (\<lambda>r. \<exists>ks. snd r = Heard ks) reports"
proof (induction c now rs arbitrary: reports e n rule: follow_stream.induct)
  case (1 c now)
  then show ?case by (auto simp: cut_error_some cut_error_none cutoff_end)
next
  case (2 c now gap r rest)
  then show ?case
    by (auto simp: cut_error_some cut_error_none cutoff_end split: if_splits sum.splits prod.splits)
qed

lemma follow_hears:
  assumes "\<forall>(gap, ks) \<in> set rs. gap < listenIdle \<and> '''' \<notin> set ks"
  shows "map snd (fst (follow_stream None now (map (\<lambda>(gap, ks). (gap, Inr (map query_escape ks))) rs))) =
      map (\<lambda>(_, ks). Heard ks) rs \<and>
    fst (snd (follow_stream None now (map (\<lambda>(gap, ks). (gap, Inr (map query_escape ks))) rs))) \<noteq> None"
  using assms
proof (induction rs arbitrary: now)
  case Nil
  show ?case by (simp add: cut_error_def)
next
  case (Cons r rs)
  then show ?case
    by (auto simp: cutoff_def listen_keys_escape split: prod.splits) (metis fst_conv snd_conv)+
qed

text \<open>Listen either reports nothing, and returns soon, or follows a stream.\<close>

lemma Listen_cases:
  assumes "Listen d net client bucket pfx ctxEnd = (reports, e, n)"
  obtains (quiet) "reports = []" "n \<le> listenIdle" "e = None \<Longrightarrow> ctxEnd = Some n"
  | (taken) u body wait stream t heard where "url_Parse d (Endpoint (clConfig client)) = Inr u"
      "exAnswer (net (listen_request (clConfig client) u bucket pfx)) = Answer 200 body wait stream"
      "follow_stream ctxEnd t stream = (heard, e, n)" "reports = (t, Connected) # heard" "t < cutoff ctxEnd 0"
proof (cases "url_Parse d (Endpoint (clConfig client))")
  case (Inl x)
  with assms show thesis by (intro quiet) (simp_all add: Listen_def)
next
  case (Inr u)
  let ?x = "net (listen_request (clConfig client) u bucket pfx)"
  have cut: "cutoff ctxEnd 0 \<le> listenIdle" using cutoff_le[of ctxEnd 0] by simp
  show thesis
  proof (cases "exRequest ?x = None \<and> exWait ?x < cutoff ctxEnd 0 \<and> (\<exists>body wait stream. exAnswer ?x = Answer 200 body wait stream)")
    case True
    then obtain body wait stream where a: "exRequest ?x = None" "exWait ?x < cutoff ctxEnd 0"
      "exAnswer ?x = Answer 200 body wait stream" by blast
    obtain heard e' n' where f: "follow_stream ctxEnd (exWait ?x) stream = (heard, e', n')" by (metis prod_cases3)
    with assms a Inr have "reports = (exWait ?x, Connected) # heard" "e' = e" "n' = n" by (auto simp: Listen_def Let_def)
    with taken[OF Inr a(3) _ _ a(2)] f show thesis by simp
  next
    case False
    with assms cut Inr have "reports = [] \<and> n \<le> listenIdle \<and> (e = None \<longrightarrow> ctxEnd = Some n)"
      by (auto simp: Listen_def Let_def cut_error_none cutoff_end split: option.splits if_splits answer.splits)
    then show thesis by (intro quiet) simp_all
  qed
qed

section \<open>The interface\<close>

text \<open>
  What a watch relies on of its \<open>listener\<close>: the reports of a connection begin with \<open>Connected\<close>, they and
  the return never come more than \<open>listenIdle\<close> after one another, and only the end of the context is
  no error.
\<close>

locale listener_iface =
  fixes listen :: "string \<Rightarrow> string \<Rightarrow> nat option \<Rightarrow> (nat \<times> report) list \<times> err option \<times> nat"
  assumes beats: "listen bucket pfx c = (reports, e, n) \<Longrightarrow> beat 0 (map fst reports) n"
    and begins: "listen bucket pfx c = (reports, e, n) \<Longrightarrow> reports = [] \<or>
      (\<exists>t heard. reports = (t, Connected) # heard \<and> list_all (\<lambda>r. \<exists>ks. snd r = Heard ks) heard)"
    and nil_ended: "listen bucket pfx c = (reports, None, n) \<Longrightarrow> c = Some n"
begin

lemma unheard_soon: "listen bucket pfx c = ([], e, n) \<Longrightarrow> n \<le> listenIdle"
  using beats by fastforce

lemma beat_end: "beat now ts n \<Longrightarrow> n \<le> now + Suc (length ts) * listenIdle"
  by (induction ts arbitrary: now) fastforce+

lemma returns_by: "listen bucket pfx c = (reports, e, n) \<Longrightarrow> n \<le> Suc (length reports) * listenIdle"
  using beat_end[OF beats] by fastforce

lemma open_ended: "listen bucket pfx None = (reports, e, n) \<Longrightarrow> e \<noteq> None"
  by (cases e) (auto dest: nil_ended)

end

interpretation s3listen: listener_iface "Listen d net client"
proof
  fix bucket pfx c reports e n
  assume l: "Listen d net client bucket pfx c = (reports, e, n)"
  then show "beat 0 (map fst reports) n"
  proof (cases rule: Listen_cases)
    case (taken u body wait stream t heard)
    have "\<forall>e. c = Some e \<longrightarrow> t \<le> e" using taken(5) by (auto simp: cutoff_def)
    from follow_beat[OF taken(3) this] taken(4,5) cutoff_le[of c 0] show ?thesis by simp
  qed simp
  from l show "reports = [] \<or> (\<exists>t heard. reports = (t, Connected) # heard \<and> list_all (\<lambda>r. \<exists>ks. snd r = Heard ks) heard)"
    by (cases rule: Listen_cases) (auto dest: follow_kind)
next
  fix bucket pfx c reports n
  assume "Listen d net client bucket pfx c = (reports, None, n)"
  then show "c = Some n" by (cases rule: Listen_cases) (auto dest: follow_kind)
qed

section \<open>Properties\<close>

text \<open>C26. Listen's error says how the stream ended. It is nil only if the caller's context ended, at
  the moment Listen returned; it is a refusal exactly if the server answered the request in time
  with a status that is neither 200 nor a server error other than 501, and then nothing was
  reported; and unless the server took the request with 200, nothing is reported. Reports begin
  with \<open>Connected\<close>, once, and none is more than \<open>listenIdle\<close> after the one before, as is the return.\<close>

theorem listen_outcome:
  assumes "Listen d net client bucket pfx ctxEnd = (reports, e, n)" "\<forall>s. url_Parse d s \<noteq> Inl (Refused st b)"
    and "\<forall>q. exRequest (net q) \<noteq> Some (Refused st b) \<and> exAnswer (net q) \<noteq> NoAnswer (Refused st b)"
  shows "(e = None \<longrightarrow> ctxEnd = Some n) \<and>
    (reports = [] \<or> (\<exists>t heard. reports = (t, Connected) # heard \<and> (\<forall>r \<in> set heard. \<exists>ks. snd r = Heard ks))) \<and>
    (reports \<noteq> [] \<longrightarrow> (\<exists>u body wait stream. url_Parse d (Endpoint (clConfig client)) = Inr u \<and>
       exAnswer (net (listen_request (clConfig client) u bucket pfx)) = Answer 200 body wait stream)) \<and>
    beat 0 (map fst reports) n \<and>
    (e = Some (Refused st b) \<longrightarrow> reports = [] \<and> (\<exists>u body wait stream. url_Parse d (Endpoint (clConfig client)) = Inr u \<and>
       exAnswer (net (listen_request (clConfig client) u bucket pfx)) = Answer st body wait stream \<and>
       exWait (net (listen_request (clConfig client) u bucket pfx)) < listenIdle \<and>
       st \<noteq> 200 \<and> (st < 500 \<or> st = 501) \<and> b = trim_space (take 512 body)))"
  using assms(1)
proof (cases rule: Listen_cases)
  case (taken u body wait stream t heard)
  with follow_kind[OF taken(3), unfolded list_all_iff] s3listen.beats[OF assms(1)] show ?thesis by auto
next
  case quiet
  have "e = Some (Refused st b) \<longrightarrow> (\<exists>u body wait stream. url_Parse d (Endpoint (clConfig client)) = Inr u \<and>
       exAnswer (net (listen_request (clConfig client) u bucket pfx)) = Answer st body wait stream \<and>
       exWait (net (listen_request (clConfig client) u bucket pfx)) < listenIdle \<and>
       st \<noteq> 200 \<and> (st < 500 \<or> st = 501) \<and> b = trim_space (take 512 body))"
    using assms quiet(1) cutoff_le[of ctxEnd 0]
    by (auto simp: Listen_def Let_def cut_error_some refusal_def
        split: sum.splits option.splits if_splits answer.splits prod.splits)
  with quiet s3listen.beats[OF assms(1)] show ?thesis by auto
qed

definition listen_deps :: s3deps where
  "listen_deps = \<lparr>url_Parse = \<lambda>s. Inr \<lparr>Scheme = ''https'', Hostname = s, Port = ''''\<rparr>,
     AppendCertsFromPEM = \<lambda>_. True, minio_New = \<lambda>_ _. None, unmarshal_BucketInfo = \<lambda>s. Inl (Errorf s)\<rparr>"

definition listen_client :: s3Client where
  "listen_client = \<lparr>clConfig = \<lparr>AccessKeyID = ''a'', SecretAccessKey = ''k'', Region = '''', Endpoint = ''s3'',
     CfgMounter = '''', Insecure = False, CABundle = '''', CfgBucket = ''''\<rparr>,
     clHost = ''s3'', clSecure = True, clTLS = TLSDefault\<rparr>"

theorem listen_outcome_witness:
  "beat 0 [7, 10007] 40007"
proof -
  let ?net = "\<lambda>_. \<lparr>exRequest = None, exWait = 7, exAnswer = Answer 200 '''' 0 [(10000, Inr [])]\<rparr>"
  have "Listen listen_deps ?net listen_client ''b'' '''' None =
      ([(7, Connected), (10007, Heard [])], Some (Errorf ''listen: nothing from the server in 30s''), 40007)"
    by (simp add: Listen_def listen_deps_def cutoff_def cut_error_def listenIdle_def listenPing_def listen_keys_def)
  from listen_outcome[OF this, of 403 "''''"] show ?thesis by (simp add: listen_deps_def)
qed

text \<open>Nothing MinIO says is missed while the stream holds. If the server takes the request within
  \<open>listenIdle\<close>, sends its records less than \<open>listenIdle\<close> apart (its pings are every \<open>listenPing\<close>)
  and writes each key as \<open>url.QueryEscape\<close> does, Listen reports \<open>Connected\<close> and then every key, as
  it is in the bucket and in the order sent, and does not return without an error.\<close>

theorem listen_hears_all:
  assumes "url_Parse d (Endpoint (clConfig client)) = Inr u"
    and "net (listen_request (clConfig client) u bucket pfx) = \<lparr>exRequest = None, exWait = wait,
      exAnswer = Answer 200 body bwait (map (\<lambda>(gap, ks). (gap, Inr (map query_escape ks))) records)\<rparr>"
    and "wait < listenIdle" "\<forall>(gap, ks) \<in> set records. gap < listenIdle \<and> '''' \<notin> set ks"
  shows "map snd (fst (Listen d net client bucket pfx None)) = Connected # map (\<lambda>(_, ks). Heard ks) records \<and>
    fst (snd (Listen d net client bucket pfx None)) \<noteq> None"
  using follow_hears[OF assms(4), of wait] assms(1-3)
  by (auto simp: Listen_def Let_def cutoff_def split: prod.splits)

theorem listen_hears_all_witness:
  "map snd (fst (Listen listen_deps (\<lambda>_. \<lparr>exRequest = None, exWait = 7,
       exAnswer = Answer 200 '''' 0 [(10000, Inr []), (10000, Inr [''p%2Fa+b.json''])]\<rparr>) listen_client ''b'' ''p/'' None)) =
     [Connected, Heard [], Heard [''p/a b.json'']]"
proof -
  have key: "query_escape ''p/a b.json'' = ''p%2Fa+b.json''" by code_simp
  show ?thesis
    using listen_hears_all[of listen_deps listen_client _
        "\<lambda>_. \<lparr>exRequest = None, exWait = 7, exAnswer = Answer 200 '''' 0 [(10000, Inr []), (10000, Inr [''p%2Fa+b.json''])]\<rparr>"
        "''b''" "''p/''" 7 "''''" 0 "[(10000, []), (10000, [''p/a b.json''])]"]
    by (simp add: listen_deps_def key listenIdle_def listenPing_def)
qed

end
