(* ===== verification/Cache.thy ===== *)
theory Cache
  imports SupState GoPaths "HOL-Library.Multiset"
begin

text \<open>
  The metadata cache of a mount (pkg/driver/cache.go): dropping it at a path or at the nearest
  ancestor that exists, and the parallel walk that lists a tree again. The registry side of a
  walk (warm, stopWarm) is in SupState.
\<close>

section \<open>Dropping\<close>

definition invalidateAttr :: string where "invalidateAttr = ''.invalidate''"

definition invalidate :: "'o os \<Rightarrow> path \<Rightarrow> ('o, errno option) state" where
  "invalidate os p = os_Setxattr os p invalidateAttr"

text \<open>
  The loop towards the root of the mount. The first argument bounds its rounds: \<open>None\<close> is a loop
  still running. \<open>filepath.FromSlash\<close> is the identity on Linux.
\<close>

fun invalidateNearest :: "nat \<Rightarrow> 'o os \<Rightarrow> path \<Rightarrow> path \<Rightarrow> ('o, (path \<times> errno option) option) state" where
  "invalidateNearest 0 os root dir = State_Monad.return None"
| "invalidateNearest (Suc n) os root dir = do {
     let p = path_join [root, dir];
     e \<leftarrow> invalidate os p;
     if e = None \<or> dir = ''.'' \<or> e \<noteq> Some ENOENT then State_Monad.return (Some (p, e))
     else invalidateNearest n os root (path_dir dir)
   }"

lemma nearest_returns:
  "\<not> rooted dir \<Longrightarrow> Suc (length dir) < n \<Longrightarrow> \<exists>p e. val_of (invalidateNearest n os root dir) s = Some (p, e) \<and>
    (e = None \<or> e \<noteq> Some ENOENT \<or> p = path_join [root, ''.''])"
proof (induction n arbitrary: dir s)
  case (Suc n)
  show ?case
  proof (cases "val_of (invalidate os (path_join [root, dir])) s = None \<or> dir = ''.'' \<or>
      val_of (invalidate os (path_join [root, dir])) s \<noteq> Some ENOENT")
    case True
    then show ?thesis by (auto simp: Let_def)
  next
    case False
    let ?s = "exec (invalidate os (path_join [root, dir])) s"
    have rel: "\<not> rooted (path_dir dir)" by (rule path_dir_relative[OF Suc.prems(1)])
    have go: "val_of (invalidateNearest (Suc n) os root dir) s = val_of (invalidateNearest n os root (path_dir dir)) ?s"
      using False by (simp add: Let_def)
    show ?thesis
    proof (cases "length (path_dir dir) < length dir")
      case True
      with Suc.prems(2) have "Suc (length (path_dir dir)) < n" by simp
      with Suc.IH[OF rel] go show ?thesis by simp
    next
      case short: False
      with path_dir_shorter[OF Suc.prems(1)] have dot: "path_dir dir = ''.''" by auto
      from Suc.prems(2) obtain m where m: "n = Suc m" by (cases n) auto
      have "val_of (invalidateNearest (Suc m) os root ''.'') ?s =
          Some (path_join [root, ''.''], val_of (invalidate os (path_join [root, ''.''])) ?s)"
        by (simp add: Let_def)
      with go dot m show ?thesis by metis
    qed
  qed
qed simp

text \<open>A mount's root, and a directory below it, by their components.\<close>

definition below :: "string list \<Rightarrow> string list \<Rightarrow> path" where
  "below cs ds = slash # join [slash] (cs @ ds)"

definition rel_dir :: "string list \<Rightarrow> path" where
  "rel_dir ds = (if ds = [] then ''.'' else join [slash] ds)"

lemma clean_comps_append_dot: "clean_comps r st (cs @ [''.'']) = clean_comps r st cs"
  by (induction r st cs rule: clean_comps.induct) (auto split: list.splits)

lemma join_dot:
  assumes "\<And>c. c \<in> set cs \<Longrightarrow> plain c"
  shows "path_join [slash # join [slash] cs, ''.''] = slash # join [slash] cs"
proof (cases "cs = []")
  case True
  then show ?thesis by (simp add: path_join_def path_clean_def rooted_def)
next
  case False
  have "split_on slash (slash # join [slash] (cs @ [''.''])) = '''' # cs @ [''.'']"
    unfolding split_rooted by (subst split_on_join) (use assms plain_simps(4) in auto)
  moreover have "clean_comps True [] (cs @ [''.'']) = cs"
    using clean_comps_plain[OF assms, of cs True "[]"] by (simp add: clean_comps_append_dot)
  ultimately show ?thesis
    using False by (simp add: path_join_def path_clean_def rooted_def join_append)
qed

lemma join_below:
  assumes "\<And>c. c \<in> set cs \<Longrightarrow> plain c" "\<And>d. d \<in> set ds \<Longrightarrow> plain d"
  shows "path_join [below cs [], rel_dir ds] = below cs ds"
  using path_join_abs[OF assms] join_dot[OF assms(1)]
  by (cases "ds = []") (simp_all add: below_def rel_dir_def)

lemma rel_dir_snoc:
  assumes "\<And>d. d \<in> set (ds @ [f]) \<Longrightarrow> plain d"
  shows "path_dir (rel_dir (ds @ [f])) = rel_dir ds" "rel_dir (ds @ [f]) \<noteq> ''.''"
proof -
  have "path_dir (join [slash] (ds @ [f])) = (if ds = [] then ''.'' else join [slash] ds)"
    by (rule path_dir_plain) (use assms plain_simps(4) in auto)
  then show "path_dir (rel_dir (ds @ [f])) = rel_dir ds" by (simp add: rel_dir_def)
  show "rel_dir (ds @ [f]) \<noteq> ''.''"
  proof
    assume a: "rel_dir (ds @ [f]) = ''.''"
    have "split_on slash (rel_dir (ds @ [f])) = ds @ [f]"
      unfolding rel_dir_def by (simp, subst split_on_join) (use assms plain_simps(4) in auto)
    with a have "ds @ [f] = [''.'']" by simp
    with assms[of "''.''"] show False by (simp add: plain_def)
  qed
qed

text \<open>The file system as far as dropping asks: which paths exist.\<close>

definition exists_only :: "'o os \<Rightarrow> path set \<Rightarrow> bool" where
  "exists_only os E \<longleftrightarrow> (\<forall>q a s. val_of (os_Setxattr os q a) s = (if q \<in> E then None else Some ENOENT))"

lemma nearest_below:
  assumes "exists_only os E" "\<And>c. c \<in> set cs \<Longrightarrow> plain c"
  shows "(\<And>d. d \<in> set ds \<Longrightarrow> plain d) \<Longrightarrow> length ds < n \<Longrightarrow>
    \<exists>k \<le> length ds. val_of (invalidateNearest n os (below cs []) (rel_dir ds)) s =
        Some (below cs (take k ds), if below cs (take k ds) \<in> E then None else Some ENOENT) \<and>
      (below cs (take k ds) \<in> E \<or> k = 0) \<and>
      (\<forall>j. k < j \<and> j \<le> length ds \<longrightarrow> below cs (take j ds) \<notin> E)"
proof (induction ds arbitrary: n s rule: rev_induct)
  case Nil
  then obtain m where "n = Suc m" by (cases n) auto
  moreover have "path_join [below cs [], rel_dir []] = below cs []" using join_below[of cs "[]"] assms(2) by simp
  ultimately show ?case
    using assms(1) by (auto simp: exists_only_def invalidate_def Let_def rel_dir_def)
next
  case (snoc f ds)
  from snoc.prems(2) obtain m where m: "n = Suc m" "length ds < m" by (cases n) auto
  have join: "path_join [below cs [], rel_dir (ds @ [f])] = below cs (ds @ [f])"
    by (rule join_below[OF assms(2) snoc.prems(1)])
  note step = rel_dir_snoc[OF snoc.prems(1)]
  show ?case
  proof (cases "below cs (ds @ [f]) \<in> E")
    case True
    with assms(1) join m show ?thesis
      by (intro exI[of _ "Suc (length ds)"]) (auto simp: exists_only_def invalidate_def Let_def)
  next
    case False
    let ?s = "exec (invalidate os (below cs (ds @ [f]))) s"
    from False assms(1) join m step have go: "val_of (invalidateNearest n os (below cs []) (rel_dir (ds @ [f]))) s =
        val_of (invalidateNearest m os (below cs []) (rel_dir ds)) ?s"
      by (simp add: exists_only_def invalidate_def Let_def)
    have plain: "\<And>d. d \<in> set ds \<Longrightarrow> plain d" using snoc.prems(1) by simp
    from snoc.IH[OF plain m(2), of ?s] obtain k where "k \<le> length ds" and
      k: "val_of (invalidateNearest m os (below cs []) (rel_dir ds)) ?s =
        Some (below cs (take k ds), if below cs (take k ds) \<in> E then None else Some ENOENT)"
      "below cs (take k ds) \<in> E \<or> k = 0" "\<forall>j. k < j \<and> j \<le> length ds \<longrightarrow> below cs (take j ds) \<notin> E"
      by blast
    have "below cs (take j (ds @ [f])) \<notin> E" if "k < j" "j \<le> length (ds @ [f])" for j
      using that k(3) False by (cases "j \<le> length ds") (auto simp: le_Suc_eq not_le)
    moreover have "take k (ds @ [f]) = take k ds" using \<open>k \<le> length ds\<close> by simp
    ultimately show ?thesis
      using go k(1,2) \<open>k \<le> length ds\<close> by (intro exI[of _ k]) simp
  qed
qed

section \<open>The walk\<close>

definition warmParallel :: nat where "warmParallel = 8"

text \<open>
  The goroutines of one walk: those waiting for a slot of the semaphore, those reading their
  directory, and the directories listed so far. \<open>tree d\<close> is what \<open>os.ReadDir\<close> gives for \<open>d\<close>.
\<close>

record walk =
  waiting :: "path list"
  reading :: "path list"
  listed :: "path list"

definition subdirs :: "path \<Rightarrow> (string \<times> bool) list \<Rightarrow> path list" where
  "subdirs d entries = map (\<lambda>e. path_join [d, fst e]) (filter snd entries)"

inductive walk_step :: "(path \<Rightarrow> (string \<times> bool) list option) \<Rightarrow> bool \<Rightarrow> walk \<Rightarrow> walk \<Rightarrow> bool"
  for tree ended where
  take_slot: "waiting g = xs @ d # ys \<Longrightarrow> length (reading g) < warmParallel \<Longrightarrow>
    walk_step tree ended g (g\<lparr>waiting := xs @ ys, reading := d # reading g\<rparr>)"
| read_dir: "reading g = xs @ d # ys \<Longrightarrow> tree d = Some entries \<Longrightarrow> \<not> ended \<Longrightarrow>
    walk_step tree ended g
      (g\<lparr>reading := xs @ ys, listed := listed g @ [d], waiting := waiting g @ subdirs d entries\<rparr>)"
| read_fails: "reading g = xs @ d # ys \<Longrightarrow> tree d = None \<Longrightarrow>
    walk_step tree ended g (g\<lparr>reading := xs @ ys\<rparr>)"
| read_ends: "reading g = xs @ d # ys \<Longrightarrow> tree d = Some entries \<Longrightarrow> ended \<Longrightarrow>
    walk_step tree ended g (g\<lparr>reading := xs @ ys, listed := listed g @ [d]\<rparr>)"
| walk_ends: "waiting g = xs @ d # ys \<Longrightarrow> ended \<Longrightarrow> walk_step tree ended g (g\<lparr>waiting := xs @ ys\<rparr>)"

definition warmUp_start :: "path list \<Rightarrow> walk" where
  "warmUp_start roots = \<lparr>waiting = roots, reading = [], listed = []\<rparr>"

definition warmUp_done :: "walk \<Rightarrow> bool" where
  "warmUp_done g \<longleftrightarrow> waiting g = [] \<and> reading g = []"

text \<open>The directories of a tree: the roots and every subdirectory of a readable one.\<close>

inductive_set under :: "(path \<Rightarrow> (string \<times> bool) list option) \<Rightarrow> path set \<Rightarrow> path set" for tree roots where
  root: "d \<in> roots \<Longrightarrow> d \<in> under tree roots"
| sub: "d \<in> under tree roots \<Longrightarrow> tree d = Some entries \<Longrightarrow> e \<in> set (subdirs d entries) \<Longrightarrow> e \<in> under tree roots"

definition walk_inv :: "(path \<Rightarrow> (string \<times> bool) list option) \<Rightarrow> path set \<Rightarrow> walk \<Rightarrow> bool" where
  "walk_inv tree roots g \<longleftrightarrow> length (reading g) \<le> warmParallel \<and>
     set (waiting g) \<union> set (reading g) \<union> set (listed g) \<subseteq> under tree roots \<and>
     (\<forall>d \<in> set (listed g). tree d \<noteq> None)"

text \<open>Nothing readable is ever lost: it is listed, or still to be.\<close>

definition walk_covers :: "(path \<Rightarrow> (string \<times> bool) list option) \<Rightarrow> path set \<Rightarrow> walk \<Rightarrow> bool" where
  "walk_covers tree roots g \<longleftrightarrow>
     (\<forall>d \<in> roots. tree d = None \<or> d \<in> set (waiting g) \<union> set (reading g) \<union> set (listed g)) \<and>
     (\<forall>d entries e. d \<in> set (listed g) \<and> tree d = Some entries \<and> e \<in> set (subdirs d entries) \<longrightarrow>
        tree e = None \<or> e \<in> set (waiting g) \<union> set (reading g) \<union> set (listed g))"

lemma walk_inv_step: "walk_step tree ended g g' \<Longrightarrow> walk_inv tree roots g \<Longrightarrow> walk_inv tree roots g'"
  by (induction rule: walk_step.induct) (auto simp: walk_inv_def intro: under.sub)

lemma walk_covers_step: "walk_step tree False g g' \<Longrightarrow> walk_covers tree roots g \<Longrightarrow> walk_covers tree roots g'"
  by (erule walk_step.cases) (fastforce simp: walk_covers_def)+

lemma walk_done_all:
  assumes "walk_covers tree roots g" "warmUp_done g" "d \<in> under tree roots" "tree d \<noteq> None"
  shows "d \<in> set (listed g)"
  using assms(3,4)
proof (induction rule: under.induct)
  case (sub d entries e)
  then have "d \<in> set (listed g)" by simp
  with sub assms(1,2) show ?case unfolding walk_covers_def warmUp_done_def by force
qed (use assms(1,2) in \<open>auto simp: walk_covers_def warmUp_done_def\<close>)

lemma walk_step_exists: "length (reading g) \<le> warmParallel \<Longrightarrow> \<not> warmUp_done g \<Longrightarrow> \<exists>g'. walk_step tree ended g g'"
proof (cases "reading g")
  case (Cons d ys)
  then have r: "reading g = [] @ d # ys" by simp
  show ?thesis
  proof (cases "tree d")
    case None
    with walk_step.read_fails[OF r] show ?thesis by blast
  next
    case (Some entries)
    show ?thesis
    proof (cases ended)
      case True
      show ?thesis by (rule exI, rule walk_step.read_ends, rule r, rule Some, rule True)
    next
      case False
      show ?thesis by (rule exI, rule walk_step.read_dir, rule r, rule Some, rule False)
    qed
  qed
next
  case Nil
  assume "\<not> warmUp_done g"
  with Nil obtain d ys where "waiting g = [] @ d # ys" by (cases "waiting g") (auto simp: warmUp_done_def)
  with Nil walk_step.take_slot[of g "[]" d ys tree ended] show ?thesis by (auto simp: warmParallel_def)
qed

text \<open>
  The height of a directory above what lies below it. A walk of directories of finite height has
  ever less left to do, in the order of multisets.
\<close>

definition falls :: "(path \<Rightarrow> (string \<times> bool) list option) \<Rightarrow> (path \<Rightarrow> nat) \<Rightarrow> bool" where
  "falls tree h \<longleftrightarrow> (\<forall>d entries x. tree d = Some entries \<longrightarrow> x \<in> set (subdirs d entries) \<longrightarrow> h x < h d)"

definition walk_left :: "(path \<Rightarrow> nat) \<Rightarrow> walk \<Rightarrow> nat multiset" where
  "walk_left h g = image_mset (\<lambda>d. Suc (2 * h d)) (mset (waiting g)) + image_mset (\<lambda>d. 2 * h d) (mset (reading g))"

lemma mset_falls: "\<forall>y \<in># B. y < x \<Longrightarrow> M + B < add_mset (x :: nat) M"
  using one_step_implies_multp[of "{#x#}" B "(<)" M] by (auto simp: less_multiset_def)

lemma walk_step_falls: "walk_step tree ended g g' \<Longrightarrow> falls tree h \<Longrightarrow> walk_left h g' < walk_left h g"
proof (induction rule: walk_step.induct)
  case (take_slot g xs d ys)
  then show ?case
    using mset_falls[of "{#2 * h d#}" "Suc (2 * h d)" "walk_left h (g\<lparr>waiting := xs @ ys\<rparr>)"]
    by (simp add: walk_left_def ac_simps)
next
  case (read_dir g xs d ys entries)
  have "\<forall>y \<in># image_mset (\<lambda>d. Suc (2 * h d)) (mset (subdirs d entries)). y < 2 * h d"
    using read_dir by (fastforce simp: falls_def)
  from mset_falls[OF this, of "walk_left h (g\<lparr>reading := xs @ ys\<rparr>)"] read_dir(1) show ?case
    by (simp add: walk_left_def ac_simps)
qed (use mset_falls[of "{#}"] in \<open>auto simp: walk_left_def\<close>)

lemma walk_steps_wf:
  assumes "falls tree h"
  shows "wf {(g', g). walk_step tree ended g g'}"
proof (rule wf_subset)
  show "wf (inv_image {(M, N :: nat multiset). M < N} (walk_left h))"
    using wfp_less_multiset[where ?'a = nat] wf_less by (intro wf_inv_image) (simp add: wfp_def)
  show "{(g', g). walk_step tree ended g g'} \<subseteq> inv_image {(M, N). M < N} (walk_left h)"
    using walk_step_falls[OF _ assms] by auto
qed

lemma walk_finishes:
  assumes "falls tree h"
  shows "walk_inv tree roots g \<Longrightarrow> \<exists>g'. (walk_step tree ended)\<^sup>*\<^sup>* g g' \<and> warmUp_done g'"
proof (induction g rule: wf_induct_rule[OF walk_steps_wf[OF assms, of ended]])
  case (1 g)
  show ?case
  proof (cases "warmUp_done g")
    case False
    then obtain g' where g': "walk_step tree ended g g'"
      using walk_step_exists[of g tree ended] 1(2) by (auto simp: walk_inv_def)
    with 1 walk_inv_step[OF g'] obtain g'' where "(walk_step tree ended)\<^sup>*\<^sup>* g' g''" "warmUp_done g''" by blast
    with g' show ?thesis by (meson converse_rtranclp_into_rtranclp)
  qed auto
qed

section \<open>Properties\<close>

text \<open>invalidateNearest always returns for a directory relative to the mount, whatever the kernel
  answers: it stops at a path whose cache was dropped, at an error that is not a missing path, or
  at the root of the mount, after at most two more rounds than the directory has bytes.\<close>

theorem nearest_terminates:
  assumes "\<not> rooted dir"
  shows "\<exists>p e. val_of (invalidateNearest (length dir + 2) os root dir) s = Some (p, e) \<and>
    (e = None \<or> e \<noteq> Some ENOENT \<or> p = path_join [root, ''.''])"
  by (rule nearest_returns[OF assms]) simp

theorem nearest_terminates_witness:
  "\<exists>p e. val_of (invalidateNearest 5 idle_os ''/s'' ''a/b'') () = Some (p, e)"
proof -
  have "\<not> rooted ''a/b''" by (simp add: rooted_def)
  from nearest_terminates[OF this, of idle_os "''/s''" "()"] show ?thesis by (auto simp: eval_nat_numeral)
qed


definition sample_fs :: "unit os" where
  "sample_fs = idle_os\<lparr>os_Setxattr := \<lambda>q a. State_Monad.return (if q = ''/s/a'' then None else Some ENOENT)\<rparr>"


text \<open>C32. A walk that is not stopped lists every readable directory of the trees it was given and no
  other path, in whatever order its goroutines run; at no time are more than eight of them
  reading; and it never gets stuck before it is done, stopped or not.\<close>

theorem walk_lists_tree:
  assumes "(walk_step tree False)\<^sup>*\<^sup>* (warmUp_start roots) g"
  shows "length (reading g) \<le> warmParallel \<and>
    (warmUp_done g \<longrightarrow> set (listed g) = {d \<in> under tree (set roots). tree d \<noteq> None}) \<and>
    (\<not> warmUp_done g \<longrightarrow> (\<exists>g'. walk_step tree ended g g'))"
proof -
  have inv: "walk_inv tree (set roots) g \<and> walk_covers tree (set roots) g"
    using assms
  proof (induction rule: rtranclp_induct)
    case base
    show ?case by (auto simp: walk_inv_def walk_covers_def warmUp_start_def intro: under.root)
  next
    case (step g g')
    then show ?case using walk_inv_step walk_covers_step by blast
  qed
  then show ?thesis
    using walk_done_all[of tree "set roots" g] walk_step_exists[of g tree ended]
    by (auto simp: walk_inv_def)
qed

theorem walk_lists_tree_witness:
  "length (reading (\<lparr>waiting = [], reading = [''/s''], listed = []\<rparr>)) \<le> warmParallel"
proof -
  have "walk_step (\<lambda>_. Some []) False (warmUp_start [''/s'']) \<lparr>waiting = [], reading = [''/s''], listed = []\<rparr>"
    using walk_step.take_slot[of "warmUp_start [''/s'']" "[]" "''/s''" "[]"] by (simp add: warmUp_start_def warmParallel_def)
  then have "(walk_step (\<lambda>_. Some []) False)\<^sup>*\<^sup>* (warmUp_start [''/s'']) \<lparr>waiting = [], reading = [''/s''], listed = []\<rparr>"
    by blast
  from walk_lists_tree[OF this, of True] show ?thesis by blast
qed

text \<open>C33. A walk of directories of finite height ends, however its goroutines are scheduled and whether
  or not it is stopped: no infinite sequence of steps exists, and a finished walk is reached.\<close>

theorem walk_terminates:
  assumes "falls tree h"
  shows "\<not> (\<exists>run. \<forall>n. walk_step tree ended (run n) (run (Suc n))) \<and>
    (\<exists>g. (walk_step tree ended)\<^sup>*\<^sup>* (warmUp_start roots) g \<and> warmUp_done g)"
proof
  show "\<not> (\<exists>run. \<forall>n. walk_step tree ended (run n) (run (Suc n)))"
    using walk_steps_wf[OF assms, of ended] unfolding wf_iff_no_infinite_down_chain by auto
  have "walk_inv tree (set roots) (warmUp_start roots)"
    by (auto simp: walk_inv_def warmUp_start_def intro: under.root)
  then show "\<exists>g. (walk_step tree ended)\<^sup>*\<^sup>* (warmUp_start roots) g \<and> warmUp_done g" by (rule walk_finishes[OF assms])
qed

theorem walk_terminates_witness:
  "\<exists>g. (walk_step (\<lambda>d. if d = ''/s'' then Some [(''a'', True), (''f'', False)] else Some []) False)\<^sup>*\<^sup>* (warmUp_start [''/s'']) g \<and> warmUp_done g"
proof -
  have "path_join [''/s'', ''a''] \<noteq> ''/s''" by code_simp
  then have "falls (\<lambda>d. if d = ''/s'' then Some [(''a'', True), (''f'', False)] else Some []) (\<lambda>d. if d = ''/s'' then 1 else 0)"
    by (auto simp: falls_def subdirs_def)
  from walk_terminates[OF this, of False "[''/s'']"] show ?thesis by blast
qed

end
