(* ===== verification/Watch.thy ===== *)
theory Watch
  imports Cache "HOL-Library.Product_Lexorder"
begin

text \<open>
  The watch of a staged volume (pkg/driver/watch.go): from the keys its bucket reports to the
  directories whose cache is dropped, the gathering of a burst, the background drop of the whole
  cache, and the loop that keeps listening.
\<close>

section \<open>Keys and directories\<close>

definition listenPrefix :: "string \<Rightarrow> string" where
  "listenPrefix pfx = (let p = trim_slashes pfx in if p = '''' then '''' else p @ ''/'')"

definition changedDir :: "string \<Rightarrow> string \<Rightarrow> path option" where
  "changedDir pfx key =
     (if \<not> prefix pfx key then None
      else let rel = trim_slashes (drop (length pfx) key)
           in if rel = '''' then None else Some (path_dir rel))"

text \<open>\<open>covers o d\<close>: dropping the cache of \<open>o\<close> drops that of \<open>d\<close>, as \<open>outermost\<close> sees it.\<close>

definition covers :: "path \<Rightarrow> path \<Rightarrow> bool" where
  "covers out d \<longleftrightarrow> out = ''.'' \<or> d = out \<or> prefix (out @ ''/'') d"

fun outer_loop :: "path list \<Rightarrow> path list \<Rightarrow> path list" where
  "outer_loop out [] = out"
| "outer_loop out (d # ds) =
     (if \<exists>x \<in> set out. covers x d then outer_loop out ds else outer_loop (out @ [d]) ds)"

definition outermost :: "path list \<Rightarrow> path list" where
  "outermost dirs = outer_loop [] (sort_key (\<lambda>d. (length d, d)) dirs)"

lemma covers_self: "covers d d"
  by (simp add: covers_def)

lemma outer_loop_mono: "set out \<subseteq> set (outer_loop out ds)"
  by (induction out ds rule: outer_loop.induct) (auto split: if_splits)

lemma outer_loop_covered: "x \<in> set ds \<Longrightarrow> \<exists>y \<in> set (outer_loop out ds). covers y x"
proof (induction out ds rule: outer_loop.induct)
  case (2 out d ds)
  show ?case
  proof (cases "x = d")
    case True
    then show ?thesis
      using outer_loop_mono[of out ds] outer_loop_mono[of "out @ [d]" ds] covers_self[of d] by auto
  next
    case False
    with "2.prems" have "x \<in> set ds" by simp
    with "2.IH" show ?thesis by simp
  qed
qed simp

lemma outer_loop_subset: "set (outer_loop out ds) \<subseteq> set out \<union> set ds"
  by (induction out ds rule: outer_loop.induct) (auto split: if_splits)

lemma outer_loop_apart:
  "sorted_wrt (\<lambda>x y. \<not> covers x y) out \<Longrightarrow> sorted_wrt (\<lambda>x y. \<not> covers x y) (outer_loop out ds)"
  by (induction out ds rule: outer_loop.induct) (auto simp: sorted_wrt_append split: if_splits)

lemma outer_loop_sorted:
  assumes "sorted (map f out)" "\<forall>x \<in> set out. \<forall>d \<in> set ds. f x \<le> f d" "sorted (map f ds)"
  shows "sorted (map f (outer_loop out ds))"
  using assms by (induction out ds rule: outer_loop.induct) (auto simp: sorted_append split: if_splits)

text \<open>Of two kept directories the later one covers the earlier only if it is the whole mount.\<close>

lemma covers_length: "covers a b \<Longrightarrow> a = ''.'' \<or> a = b \<or> length a < length b"
  by (auto simp: covers_def dest!: prefix_length_le)

lemma outermost_subset: "set (outermost dirs) \<subseteq> set dirs"
  using outer_loop_subset[of "[]" "sort_key (\<lambda>d. (length d, d)) dirs"] by (simp add: outermost_def)

lemma outermost_covered: "d \<in> set dirs \<Longrightarrow> \<exists>x \<in> set (outermost dirs). covers x d"
  using outer_loop_covered[of d "sort_key (\<lambda>d. (length d, d)) dirs" "[]"] by (simp add: outermost_def)

lemma outermost_apart:
  assumes "x \<in> set (outermost dirs)" "y \<in> set (outermost dirs)" "x \<noteq> y" "covers x y"
  shows "x = ''.'' \<and> length y \<le> 1 \<and> y < ''.''"
proof -
  let ?f = "\<lambda>d :: path. (length d, d)"
  obtain i j where ij: "i < length (outermost dirs)" "j < length (outermost dirs)"
    "outermost dirs ! i = x" "outermost dirs ! j = y" using assms(1,2) by (metis in_set_conv_nth)
  have apart: "sorted_wrt (\<lambda>x y. \<not> covers x y) (outermost dirs)"
    unfolding outermost_def by (rule outer_loop_apart) simp
  have sorted: "sorted (map ?f (outermost dirs))"
    unfolding outermost_def by (rule outer_loop_sorted) simp_all
  have "\<not> i < j" using sorted_wrt_nth_less[OF apart, of i j] ij assms(4) by auto
  moreover have "i \<noteq> j" using ij assms(3) by auto
  ultimately have "?f y \<le> ?f x" using sorted_nth_mono[OF sorted, of j i] ij by simp
  with covers_length[OF assms(4)] assms(3)
  have x: "x = ''.''" and le: "y = [] \<or> length y \<le> 1 \<and> y \<le> x" by (auto simp: less_eq_prod_def)
  from x le assms(3) show ?thesis by auto
qed

text \<open>What outermost means to keep: the directories that no other one covers.\<close>

definition uncovered :: "path set \<Rightarrow> path set" where
  "uncovered D = {d \<in> D. \<forall>x \<in> D. covers x d \<longrightarrow> x = d}"

lemma covers_trans: "covers a b \<Longrightarrow> covers b c \<Longrightarrow> b \<noteq> ''.'' \<Longrightarrow> covers a c"
  by (auto simp: covers_def prefix_def)

lemma covers_antisym: "covers a b \<Longrightarrow> covers b a \<Longrightarrow> a \<noteq> ''.'' \<Longrightarrow> b \<noteq> ''.'' \<Longrightarrow> a = b"
  by (auto simp: covers_def prefix_def)

lemma sorted_wrt_distinct: "(\<And>x. \<not> P x x) \<Longrightarrow> sorted_wrt P xs \<Longrightarrow> distinct xs"
  by (induction xs) auto

lemma outermost_distinct: "distinct (outermost dirs)"
proof -
  have "sorted_wrt (\<lambda>x y. \<not> covers x y) (outermost dirs)"
    unfolding outermost_def by (rule outer_loop_apart) simp
  then show ?thesis by (rule sorted_wrt_distinct[rotated]) (simp add: covers_self)
qed

lemma outermost_uncovered:
  assumes "''.'' \<notin> set dirs"
  shows "set (outermost dirs) = uncovered (set dirs)"
proof (intro equalityI subsetI)
  fix y assume y: "y \<in> set (outermost dirs)"
  have "x = y" if "x \<in> set dirs" "covers x y" for x
  proof -
    obtain z where z: "z \<in> set (outermost dirs)" "covers z x" using outermost_covered[OF \<open>x \<in> set dirs\<close>] by blast
    have ne: "x \<noteq> ''.''" "y \<noteq> ''.''" "z \<noteq> ''.''" using assms that(1) y z(1) outermost_subset[of dirs] by auto
    have "covers z y" using covers_trans[OF z(2) that(2) ne(1)] .
    then have "z = y" using outermost_apart[OF z(1) y] ne(3) by blast
    with z(2) that(2) ne show ?thesis using covers_antisym by blast
  qed
  then show "y \<in> uncovered (set dirs)" using y outermost_subset[of dirs] by (auto simp: uncovered_def)
next
  fix y assume "y \<in> uncovered (set dirs)"
  then have y: "y \<in> set dirs" "\<And>x. x \<in> set dirs \<Longrightarrow> covers x y \<Longrightarrow> x = y" by (auto simp: uncovered_def)
  from outermost_covered[OF y(1)] obtain x where "x \<in> set (outermost dirs)" "covers x y" by blast
  with y(2) outermost_subset[of dirs] show "y \<in> set (outermost dirs)" by blast
qed

text \<open>A key below the mount, by its components; the marker object of a directory ends in a slash.\<close>

lemma trim_char_one: "trim_char c [c] = []"
  by (simp add: trim_char_def)

lemma word_ends: "c \<noteq> [] \<Longrightarrow> slash \<notin> set c \<Longrightarrow> hd c \<noteq> slash \<and> last c \<noteq> slash"
  by (metis hd_in_set last_in_set)

lemma trim_join:
  assumes "\<And>c. c \<in> set cs \<Longrightarrow> plain c"
  shows "trim_slashes (join [slash] cs) = join [slash] cs" "trim_slashes (join [slash] cs @ [slash]) = join [slash] cs"
proof -
  have ends: "cs \<noteq> [] \<Longrightarrow> join [slash] cs \<noteq> [] \<and> hd (join [slash] cs) \<noteq> slash \<and> last (join [slash] cs) \<noteq> slash"
    using assms
  proof (induction "[slash]" cs rule: join.induct)
    case (2 c)
    have "c \<noteq> []" "slash \<notin> set c" using "2.prems"(2)[of c] by (auto simp: plain_def)
    then show ?case using word_ends[of c] by simp
  next
    case (3 c d cs)
    have "c \<noteq> []" "slash \<notin> set c" using "3.prems"(2)[of c] by (auto simp: plain_def)
    then show ?case using "3.hyps" "3.prems" word_ends[of c] by (simp add: hd_append)
  qed simp
  then show "trim_slashes (join [slash] cs) = join [slash] cs"
    by (cases "cs = []") (auto intro: trim_char_id)
  show "trim_slashes (join [slash] cs @ [slash]) = join [slash] cs"
    using ends by (cases "cs = []") (auto simp: trim_snoc trim_char_id trim_char_one)
qed

lemma changedDir_below:
  assumes "\<And>d. d \<in> set (ds @ [f]) \<Longrightarrow> plain d" "marker = '''' \<or> marker = ''/''"
  shows "changedDir pfx (pfx @ join [slash] (ds @ [f]) @ marker) = Some (rel_dir ds)"
proof -
  have "trim_slashes (join [slash] (ds @ [f]) @ marker) = join [slash] (ds @ [f])"
    using assms(2) trim_join[of "ds @ [f]", OF assms(1)] by auto
  moreover have "join [slash] (ds @ [f]) \<noteq> []" by (rule join_plain_ne) (use assms(1) in auto)
  moreover have "path_dir (join [slash] (ds @ [f])) = rel_dir ds"
    using rel_dir_snoc(1)[OF assms(1)] by (simp add: rel_dir_def)
  ultimately show ?thesis by (simp add: changedDir_def Let_def)
qed

lemma changedDir_relative: "changedDir pfx key = Some d \<Longrightarrow> \<not> rooted d"
proof -
  assume "changedDir pfx key = Some d"
  then have d: "d = path_dir (trim_slashes (drop (length pfx) key))" and ne: "trim_slashes (drop (length pfx) key) \<noteq> []"
    by (auto simp: changedDir_def Let_def split: if_splits)
  have "\<not> rooted (trim_slashes (drop (length pfx) key))" using hd_trim_char[OF ne] by (simp add: rooted_def)
  then show ?thesis unfolding d by (rule path_dir_relative)
qed

section \<open>Dropping\<close>

definition maxDirs :: nat where "maxDirs = 64"

text \<open>
  The part of flush after its critical section; True when it asks for a drop of the whole cache.
  The fuel given to invalidateNearest is enough by \<open>nearest_terminates\<close> of theory Cache.
\<close>

definition drop_dir :: "'o plugin \<Rightarrow> path \<Rightarrow> path \<Rightarrow> ('o world, path option) state" where
  "drop_dir p stage d = do {
     r \<leftarrow> outside_m (invalidateNearest (length d + 2) (pOS p) stage d);
     State_Monad.return (case r of Some (q, None) \<Rightarrow> Some q | _ \<Rightarrow> None)
   }"

definition flush_dirs :: "'o plugin \<Rightarrow> watchRef \<Rightarrow> path set \<Rightarrow> ('o world, bool) state" where
  "flush_dirs p r dirs = do {
     w \<leftarrow> State_Monad.get;
     if wrCtx r \<in> cancelled w then State_Monad.return False
     else (let targets = outermost (sorted_list_of_set dirs) in
       if length targets > maxDirs \<or> targets = [''.''] then State_Monad.return True
       else do {
         dropped \<leftarrow> collect_m (drop_dir p (wrStage r)) targets;
         (if wrRewarm r \<and> dropped \<noteq> [] then warm (wrVolumeID r) dropped else State_Monad.return ());
         State_Monad.return False
       })
   }"

definition dropAllNow :: "'o plugin \<Rightarrow> watchRef \<Rightarrow> ('o world, unit) state" where
  "dropAllNow p r = do {
     w \<leftarrow> State_Monad.get;
     if wrCtx r \<in> cancelled w then State_Monad.return ()
     else do {
       stopWarm (wrVolumeID r);
       e \<leftarrow> outside_m (invalidate (pOS p) (wrStage r));
       if e \<noteq> None then State_Monad.return ()
       else if wrRewarm r then warm (wrVolumeID r) [wrStage r]
       else State_Monad.return ()
     }
   }"

section \<open>Gathering and coalescing\<close>

text \<open>
  The fields of a watch under its lock, the goroutines that run for it, and one ghost:
  \<open>unserved\<close> is a drop asked since the last drop began.
\<close>

record gather =
  pending :: "path set"
  flushing :: bool
  timers :: nat  \<comment> \<open>flushes scheduled\<close>
  dropping :: bool
  dropAgain :: bool
  starting :: nat  \<comment> \<open>background droppers about to drop\<close>
  running :: nat  \<comment> \<open>droppers inside dropAllNow\<close>
  unserved :: bool

definition new_gather :: gather where
  "new_gather = \<lparr>pending = {}, flushing = False, timers = 0, dropping = False, dropAgain = False,
     starting = 0, running = 0, unserved = False\<rparr>"

definition changed :: "string \<Rightarrow> string \<Rightarrow> gather \<Rightarrow> gather" where
  "changed pfx key g =
     (case changedDir pfx key of
        None \<Rightarrow> g
      | Some dir \<Rightarrow>
          let g' = g\<lparr>pending := insert dir (pending g)\<rparr>
          in if flushing g then g' else g'\<lparr>flushing := True, timers := Suc (timers g)\<rparr>)"

definition take_pending :: "gather \<Rightarrow> path set \<times> gather" where
  "take_pending g = (pending g, g\<lparr>pending := {}, flushing := False, timers := timers g - 1\<rparr>)"

definition dropAll :: "gather \<Rightarrow> gather" where
  "dropAll g =
     (if dropping g then g\<lparr>dropAgain := True, unserved := True\<rparr>
      else g\<lparr>dropping := True, starting := Suc (starting g), unserved := True\<rparr>)"

definition drop_begins :: "gather \<Rightarrow> gather" where
  "drop_begins g = g\<lparr>starting := starting g - 1, running := Suc (running g), unserved := False\<rparr>"

definition drop_ends :: "gather \<Rightarrow> gather" where
  "drop_ends g =
     (let again = dropAgain g in
      g\<lparr>dropAgain := False, dropping := again, running := running g - 1,
        starting := (if again then Suc (starting g) else starting g)\<rparr>)"

text \<open>
  flush, and one round of the goroutine dropAll starts: their critical sections and what they do
  between them.
\<close>

definition flush :: "'o plugin \<Rightarrow> watchRef \<Rightarrow> gather \<Rightarrow> ('o world, gather) state" where
  "flush p r g = (case take_pending g of (dirs, g') \<Rightarrow> do {
     whole \<leftarrow> flush_dirs p r dirs;
     State_Monad.return (if whole then dropAll g' else g')
   })"

definition drop_round :: "'o plugin \<Rightarrow> watchRef \<Rightarrow> gather \<Rightarrow> ('o world, gather) state" where
  "drop_round p r g = do {
     dropAllNow p r;
     State_Monad.return (drop_ends (drop_begins g))
   }"

inductive watch_step :: "string \<Rightarrow> gather \<Rightarrow> gather \<Rightarrow> bool" for pfx where
  key_changed: "watch_step pfx g (changed pfx key g)"
| timer_fires: "timers g > 0 \<Longrightarrow> watch_step pfx g (snd (take_pending g))"
| drop_asked: "watch_step pfx g (dropAll g)"
| dropper_begins: "starting g > 0 \<Longrightarrow> watch_step pfx g (drop_begins g)"
| dropper_ends: "running g > 0 \<Longrightarrow> watch_step pfx g (drop_ends g)"

definition gather_inv :: "gather \<Rightarrow> bool" where
  "gather_inv g \<longleftrightarrow> timers g = of_bool (flushing g) \<and> (pending g \<noteq> {} \<longrightarrow> flushing g) \<and>
     starting g + running g = of_bool (dropping g) \<and> (dropAgain g \<longrightarrow> dropping g) \<and>
     (unserved g \<longrightarrow> starting g = 1 \<or> dropAgain g)"

lemma gather_inv_step: "watch_step pfx g g' \<Longrightarrow> gather_inv g \<Longrightarrow> gather_inv g'"
  by (induction rule: watch_step.induct)
    (auto simp: gather_inv_def changed_def take_pending_def dropAll_def drop_begins_def drop_ends_def Let_def
      of_bool_def split: option.splits if_splits)

lemma gather_inv_reachable: "(watch_step pfx)\<^sup>*\<^sup>* new_gather g \<Longrightarrow> gather_inv g"
proof (induction rule: rtranclp_induct)
  case base
  show ?case by (simp add: gather_inv_def new_gather_def)
qed (rule gather_inv_step)

lemma split_on_join_append:
  assumes "ws \<noteq> []" "\<And>w. w \<in> set ws \<Longrightarrow> c \<notin> set w"
  shows "split_on c (join [c] ws @ c # t) = ws @ split_on c t"
  using assms by (induction "[c]" ws rule: join.induct) (auto simp: split_on_append_sep)

text \<open>A directory covers another exactly when its components begin the other's.\<close>

lemma covers_components:
  assumes "\<And>d. d \<in> set os \<Longrightarrow> plain d" "\<And>d. d \<in> set ds \<Longrightarrow> plain d" "covers (rel_dir os) (rel_dir ds)"
  shows "\<exists>rest. ds = os @ rest"
proof -
  have split: "split_on slash (rel_dir xs) = (if xs = [] then [''.''] else xs)" if "\<And>d. d \<in> set xs \<Longrightarrow> plain d" for xs
    using that plain_simps(4) by (auto simp: rel_dir_def intro: split_on_join)
  have nodot: "''.'' \<notin> set xs" if "\<And>d. d \<in> set xs \<Longrightarrow> plain d" for xs
    using that[of "''.''"] by (auto simp: plain_def)
  from assms(3) consider "rel_dir os = ''.''" | "rel_dir ds = rel_dir os"
    | "os \<noteq> []" "prefix (rel_dir os @ ''/'') (rel_dir ds)"
    by (cases "os = []") (auto simp: covers_def rel_dir_def)
  then show ?thesis
  proof cases
    case 1
    with split[OF assms(1), of os] nodot[of os] assms(1) show ?thesis by (auto split: if_splits)
  next
    case 2
    then have "split_on slash (rel_dir ds) = split_on slash (rel_dir os)" by simp
    with split[of os] split[of ds] nodot[of os] nodot[of ds] assms(1,2) show ?thesis
      by (auto split: if_splits)
  next
    case 3
    then obtain t where "rel_dir ds = join [slash] os @ slash # t" by (auto simp: prefix_def rel_dir_def)
    with split_on_join_append[of os slash t] 3(1) assms(1) plain_simps(4)
    have "split_on slash (rel_dir ds) = os @ split_on slash t" by auto
    with split[of ds] nodot[of os] assms 3(1) show ?thesis
      by (cases os) (auto split: if_splits)
  qed
qed

lemma lift_list: "set ts \<subseteq> f ` D \<Longrightarrow> \<exists>xs. ts = map f xs \<and> set xs \<subseteq> D"
proof (induction ts)
  case (Cons t ts)
  then obtain xs x where "ts = map f xs" "set xs \<subseteq> D" "t = f x" "x \<in> D" by auto
  then show ?case by (intro exI[of _ "x # xs"]) simp
qed simp

text \<open>Which targets a flush drops on a file system that knows only which paths exist.\<close>

lemma drop_dir_below:
  assumes "exists_only (pOS p) E" "\<And>c. c \<in> set cs \<Longrightarrow> plain c" "\<And>d. d \<in> set ds \<Longrightarrow> plain d" "below cs [] \<in> E"
  shows "\<exists>k \<le> length ds. val_of (drop_dir p (below cs []) (rel_dir ds)) w = Some (below cs (take k ds))"
proof -
  have "length ds < length (rel_dir ds) + 2"
  proof (cases "ds = []")
    case False
    have "tot ds = Suc (length (join [slash] ds))" using length_join[OF False, of slash] by simp
    moreover have "length xs \<le> tot xs" for xs :: "string list" by (induction xs) auto
    ultimately show ?thesis using False by (metis rel_dir_def add_2_eq_Suc' less_Suc_eq_le le_SucI le_imp_less_Suc)
  qed simp
  from nearest_below[OF assms(1,2,3) this, where s = "outside w"] obtain k where "k \<le> length ds"
    "val_of (invalidateNearest (length (rel_dir ds) + 2) (pOS p) (below cs []) (rel_dir ds)) (outside w) =
      Some (below cs (take k ds), if below cs (take k ds) \<in> E then None else Some ENOENT)"
    "below cs (take k ds) \<in> E \<or> k = 0" by blast
  with assms(4) show ?thesis by (auto simp: drop_dir_def intro!: exI[of _ k])
qed

lemma drop_dir_world: "exec (drop_dir p stage d) w = w\<lparr>outside := outside (exec (drop_dir p stage d) w)\<rparr>"
  by (simp add: drop_dir_def)

lemma drop_dirs_world:
  "\<exists>s. exec (collect_m (drop_dir p stage) ts) w = w\<lparr>outside := s\<rparr>"
proof (induction ts arbitrary: w)
  case Nil
  show ?case by (auto intro: exI[of _ "outside w"])
next
  case (Cons t ts)
  obtain s where "exec (collect_m (drop_dir p stage) ts) (exec (drop_dir p stage t) w) =
      (exec (drop_dir p stage t) w)\<lparr>outside := s\<rparr>" using Cons by blast
  then have "exec (collect_m (drop_dir p stage) (t # ts)) w = w\<lparr>outside := s\<rparr>"
    by (subst (asm) drop_dir_world) simp
  then show ?case by blast
qed

lemma drop_dirs_below:
  assumes "exists_only (pOS p) E" "\<And>c. c \<in> set cs \<Longrightarrow> plain c" "below cs [] \<in> E"
  shows "(\<And>ds d. ds \<in> set DS \<Longrightarrow> d \<in> set ds \<Longrightarrow> plain d) \<Longrightarrow> ds \<in> set DS \<Longrightarrow>
    \<exists>k \<le> length ds. below cs (take k ds) \<in> set (val_of (collect_m (drop_dir p (below cs [])) (map rel_dir DS)) w)"
proof (induction DS arbitrary: w)
  case (Cons e DS)
  obtain k where k: "k \<le> length e"
    "val_of (drop_dir p (below cs []) (rel_dir e)) w = Some (below cs (take k e))"
    using drop_dir_below[OF assms(1,2) _ assms(3), of e w] Cons.prems(1) by (metis list.set_intros(1))
  show ?case
  proof (cases "ds = e")
    case True
    with k show ?thesis by (auto intro!: exI[of _ k])
  next
    case False
    with Cons.prems have "ds \<in> set DS" by simp
    with Cons.IH[of "exec (drop_dir p (below cs []) (rel_dir e)) w"] Cons.prems(1) k show ?thesis by fastforce
  qed
qed simp

text \<open>The paths whose cache was dropped so far, a record the kernel could keep.\<close>

definition logs_drops :: "'o os \<Rightarrow> path set \<Rightarrow> ('o \<Rightarrow> path set) \<Rightarrow> bool" where
  "logs_drops os E log \<longleftrightarrow> exists_only os E \<and>
     (\<forall>q s. log (exec (os_Setxattr os q invalidateAttr) s) = (if q \<in> E then insert q (log s) else log s))"

lemma nearest_log:
  assumes "logs_drops os E log"
  shows "log s \<subseteq> log (exec (invalidateNearest n os root dir) s) \<and>
    (\<forall>q. val_of (invalidateNearest n os root dir) s = Some (q, None) \<longrightarrow> q \<in> log (exec (invalidateNearest n os root dir) s))"
proof (induction n arbitrary: dir s)
  case (Suc n)
  let ?p = "path_join [root, dir]" let ?s = "exec (invalidate os ?p) s"
  have step: "log s \<subseteq> log ?s" "val_of (invalidate os ?p) s = None \<Longrightarrow> ?p \<in> log ?s"
    using assms by (auto simp: logs_drops_def exists_only_def invalidate_def)
  with Suc[of ?s "path_dir dir"] show ?case by (auto simp: Let_def)
qed simp

lemma drop_dirs_log:
  assumes "logs_drops (pOS p) E log"
  shows "log (outside w) \<subseteq> log (outside (exec (collect_m (drop_dir p stage) ts) w)) \<and>
    set (val_of (collect_m (drop_dir p stage) ts) w) \<subseteq> log (outside (exec (collect_m (drop_dir p stage) ts) w))"
proof (induction ts arbitrary: w)
  case (Cons t ts)
  let ?w = "exec (drop_dir p stage t) w"
  have "log (outside w) \<subseteq> log (outside ?w) \<and> (\<forall>q. val_of (drop_dir p stage t) w = Some q \<longrightarrow> q \<in> log (outside ?w))"
    using nearest_log[OF assms, of "outside w" "length t + 2" stage t]
    by (auto simp: drop_dir_def split: option.split)
  with Cons[of ?w] show ?case by (auto split: option.split)
qed simp

text \<open>A drop of the whole cache, when nothing stopped the watch: the root is dropped, and walked again.\<close>

lemma drop_round_drops:
  assumes "logs_drops (pOS p) E log" "wrStage r \<in> E" "wrCtx r \<notin> cancelled w"
  shows "wrStage r \<in> log (outside (exec (drop_round p r g) w)) \<and>
    (wrRewarm r \<and> vols w (wrVolumeID r) \<noteq> None \<longrightarrow>
       spawned (exec (drop_round p r g) w) = spawned w @ [WarmUp (nextCtx w) [wrStage r]])"
proof -
  have e: "val_of (invalidate (pOS p) (wrStage r)) s = None" "wrStage r \<in> log (exec (invalidate (pOS p) (wrStage r)) s)" for s
    using assms(1,2) by (auto simp: logs_drops_def exists_only_def invalidate_def)
  then show ?thesis
    using assms(3) by (auto simp: drop_round_def dropAllNow_def exec_warm exec_stopWarm)
qed

section \<open>Listening again\<close>

text \<open>Durations in milliseconds.\<close>

definition changeWindow :: nat where "changeWindow = 250"
definition reconnectMin :: nat where "reconnectMin = 1000"
definition reconnectMax :: nat where "reconnectMax = 30000"
definition refusedRefresh :: nat where "refusedRefresh = 60000"
definition refusedRetry :: nat where "refusedRetry = 300000"

text \<open>
  One round of run after Listen returned and the watch did not end: how long ago it had connected,
  if it had, and whether the endpoint refused. \<open>ListenAgain\<close> only sleeps; \<open>WaitDropping\<close> waits
  while the cache is dropped every \<open>refusedRefresh\<close>.
\<close>

record runState =
  rsDelay :: nat
  rsDeaf :: bool

datatype runAction = ListenAgain nat | WaitDropping nat

definition run_round :: "runState \<Rightarrow> nat option \<Rightarrow> bool \<Rightarrow> runAction \<times> runState" where
  "run_round st connected refused =
     (let deaf = rsDeaf st \<and> connected = None in
      if connected \<noteq> None \<and> \<not> refused then
        let delay = (if the connected > reconnectMax then reconnectMin else rsDelay st)
        in (ListenAgain delay, \<lparr>rsDelay = min (2 * delay) reconnectMax, rsDeaf = deaf\<rparr>)
      else
        (WaitDropping (if refused then refusedRetry else rsDelay st),
         \<lparr>rsDelay = min (2 * rsDelay st) reconnectMax, rsDeaf = True\<rparr>))"

definition run_start :: runState where
  "run_start = \<lparr>rsDelay = reconnectMin, rsDeaf = False\<rparr>"

fun run_rounds :: "runState \<Rightarrow> (nat option \<times> bool) list \<Rightarrow> runAction list \<times> runState" where
  "run_rounds st [] = ([], st)"
| "run_rounds st ((c, r) # rest) =
     (case run_round st c r of (a, st') \<Rightarrow> case run_rounds st' rest of (as, st'') \<Rightarrow> (a # as, st''))"

definition delay_ok :: "nat \<Rightarrow> bool" where
  "delay_ok d \<longleftrightarrow> reconnectMin \<le> d \<and> d \<le> reconnectMax"

text \<open>What is right after an outcome: only a bucket heard until the stream broke is waited for without dropping.\<close>

definition round_ok :: "nat option \<times> bool \<Rightarrow> runAction \<Rightarrow> bool" where
  "round_ok r a = (case a of
       ListenAgain d \<Rightarrow> fst r \<noteq> None \<and> \<not> snd r \<and> delay_ok d
     | WaitDropping d \<Rightarrow> (fst r = None \<or> snd r) \<and> (if snd r then d = refusedRetry else delay_ok d))"

lemma run_round_ok:
  "delay_ok (rsDelay st) \<Longrightarrow> run_round st c r = (a, st') \<Longrightarrow> delay_ok (rsDelay st') \<and> round_ok (c, r) a"
  by (auto simp: run_round_def round_ok_def delay_ok_def Let_def reconnectMin_def reconnectMax_def split: if_splits)

lemma run_rounds_ok:
  "run_rounds st rs = (as, st') \<Longrightarrow> delay_ok (rsDelay st) \<Longrightarrow> delay_ok (rsDelay st') \<and> list_all2 round_ok rs as"
proof (induction st rs arbitrary: as st' rule: run_rounds.induct)
  case (2 st c r rest)
  obtain a st1 where a: "run_round st c r = (a, st1)" by fastforce
  obtain as1 st2 where as1: "run_rounds st1 rest = (as1, st2)" by fastforce
  from run_round_ok[OF "2.prems"(2) a] "2.IH"[OF a[symmetric] as1] "2.prems"(1) a as1 show ?case by auto
qed simp

section \<open>Properties\<close>

text \<open>C34. A created or removed object below the mount's prefix, or the marker object of a directory,
  concerns exactly the directory that holds it, relative to the mount; a key outside the prefix
  concerns none.\<close>

theorem changed_dir_exact:
  assumes "\<forall>d \<in> set (ds @ [f]). plain d"
  shows "changedDir pfx (pfx @ join [slash] (ds @ [f])) = Some (rel_dir ds) \<and>
    changedDir pfx (pfx @ join [slash] (ds @ [f]) @ ''/'') = Some (rel_dir ds) \<and>
    (\<not> prefix pfx key \<longrightarrow> changedDir pfx key = None)"
  using changedDir_below[of ds f "''''" pfx] changedDir_below[of ds f "''/''" pfx] assms
  by (simp add: changedDir_def)

theorem changed_dir_exact_witness:
  "changedDir (listenPrefix ''/pvc-1'') ''pvc-1/a/b/c.wav'' = Some ''a/b''"
proof -
  have p: "listenPrefix ''/pvc-1'' = ''pvc-1/''" by code_simp
  have "\<forall>d \<in> set ([''a'', ''b''] @ [''c.wav'']). plain d" by (auto simp: plain_def)
  from changed_dir_exact[OF this, of "''pvc-1/''"] show ?thesis unfolding p by (simp add: rel_dir_def)
qed

text \<open>C35. outermost keeps enough and no more: every directory given is kept or lies below a kept one, and
  none of the kept ones lies below another, except that the whole mount does not absorb a directory
  whose one-byte name sorts before a dot. Unless the whole mount is among them, the loop over the
  sorted directories keeps, once each, exactly those that no other one covers.\<close>

theorem outermost_covers:
  "set (outermost dirs) \<subseteq> set dirs \<and> (\<forall>d \<in> set dirs. \<exists>x \<in> set (outermost dirs). covers x d) \<and>
   (\<forall>x \<in> set (outermost dirs). \<forall>y \<in> set (outermost dirs). x \<noteq> y \<and> covers x y \<longrightarrow>
      x = ''.'' \<and> length y \<le> 1 \<and> y < ''.'') \<and>
   (''.'' \<notin> set dirs \<longrightarrow> distinct (outermost dirs) \<and> set (outermost dirs) = uncovered (set dirs))"
  using outermost_subset outermost_covered outermost_apart outermost_distinct outermost_uncovered by blast

theorem outermost_covers_witness: "set (outermost [''a/b'', ''a'', ''-'', ''.'']) \<subseteq> {''a/b'', ''a'', ''-'', ''.''}"
  using outermost_covers[of "[''a/b'', ''a'', ''-'', ''.'']"] by simp

text \<open>C12. No change and no drop is lost, however keys, timers, drops and droppers interleave: a
  directory that changed waits for a flush that is scheduled, and only one; at most one dropper
  runs; and a drop asked after the last one began is still to begin, so that when no dropper is
  left every drop asked was served by one that began later.\<close>

theorem no_drop_lost:
  assumes "(watch_step pfx)\<^sup>*\<^sup>* new_gather g"
  shows "timers g \<le> 1 \<and> (pending g \<noteq> {} \<longrightarrow> timers g = 1) \<and> starting g + running g \<le> 1 \<and>
    (unserved g \<longrightarrow> starting g = 1 \<or> running g = 1 \<and> starting (drop_ends g) = 1) \<and>
    (starting g + running g = 0 \<longrightarrow> \<not> unserved g \<and> \<not> dropping g)"
  using gather_inv_reachable[OF assms]
  by (auto simp: gather_inv_def drop_ends_def Let_def of_bool_def split: if_splits)

theorem no_drop_lost_witness: "unserved (dropAll (drop_begins (dropAll new_gather))) \<and>
    starting (drop_ends (dropAll (drop_begins (dropAll new_gather)))) = 1"
proof -
  let ?g = "dropAll new_gather"
  have "watch_step '''' new_gather ?g" "watch_step '''' ?g (drop_begins ?g)"
    "watch_step '''' (drop_begins ?g) (dropAll (drop_begins ?g))"
    by (rule watch_step.drop_asked watch_step.dropper_begins, simp add: dropAll_def new_gather_def)+
      (rule watch_step.drop_asked)
  then have "(watch_step '''')\<^sup>*\<^sup>* new_gather (dropAll (drop_begins ?g))" by (meson r_into_rtranclp rtranclp_trans)
  from no_drop_lost[OF this] show ?thesis by (simp add: dropAll_def drop_begins_def new_gather_def)
qed

text \<open>The waits between connections stay between \<open>reconnectMin\<close> and \<open>reconnectMax\<close> over any sequence
  of outcomes, except that a refusing endpoint is tried again after \<open>refusedRetry\<close>; and whenever
  the bucket was not heard, the wait drops the cache.\<close>

theorem run_delays_bounded:
  assumes "run_rounds run_start outcomes = (actions, st)"
  shows "delay_ok (rsDelay st) \<and> list_all2 round_ok outcomes actions"
  by (rule run_rounds_ok[OF assms]) (simp add: delay_ok_def run_start_def reconnectMin_def reconnectMax_def)

theorem run_delays_bounded_witness:
  "list_all2 round_ok [(None, False), (Some 5, False), (None, True)]
     [WaitDropping 1000, ListenAgain 2000, WaitDropping 300000]"
  using run_delays_bounded[of "[(None, False), (Some 5, False), (None, True)]"]
  by (simp add: run_round_def run_start_def reconnectMin_def reconnectMax_def refusedRetry_def Let_def)


definition sample_watch :: watchRef where
  "sample_watch = \<lparr>wrVolumeID = ''v'', wrStage = ''/s'', wrRewarm = True, wrCtx = 0\<rparr>"

definition sample_plugin :: "path set plugin" where
  "sample_plugin = idle_plugin\<lparr>pOS := idle_os\<lparr>os_Setxattr := \<lambda>q a. State (\<lambda>s.
     if q \<in> {''/s'', ''/s/a''} then (None, insert q s) else (Some ENOENT, s))\<rparr>\<rparr>"

definition sample_seen :: "path set world" where
  "sample_seen = start_world {}"

definition sample_burst :: gather where
  "sample_burst = changed ''p/'' ''p/a/b/c.wav'' new_gather"


end
