(* ===== verification/WatchRun.thy ===== *)
theory WatchRun
  imports Listen Watch Supervisor
begin

text \<open>
  The goroutine of a watch (pkg/driver/watch.go, run and waitDropping): it resolves the volume's
  credentials, then listens, connection after connection, and drops the cache by the clock while
  the bucket is not heard. One round's server and the end of the watch's context are a
  \<open>listenEnv\<close>. What Listen reports moves the watch's fields (\<open>gather\<close> of theory Watch); the timers and
  droppers it starts run beside it and are the steps of that theory.
\<close>

section \<open>Waiting while the bucket is not heard\<close>

text \<open>
  \<open>waitDropping\<close> up to the time \<open>until\<close>; \<open>dropped\<close> is None before the first drop. The first
  argument bounds the rounds of its loop, and None is a loop still running. A negative duration
  does not wait, as zero does.
\<close>

definition drop_due :: "'o plugin \<Rightarrow> watchRef \<Rightarrow> nat option \<Rightarrow> ('o world, nat) state" where
  "drop_due p r dropped = do {
     now \<leftarrow> outside_m (os_Now (pOS p));
     (case dropped of
        Some t \<Rightarrow>
          if now < t + refusedRefresh then State_Monad.return t
          else do { stopWarm (wrVolumeID r); _ \<leftarrow> outside_m (invalidate (pOS p) (wrStage r)); outside_m (os_Now (pOS p)) }
      | None \<Rightarrow> do { stopWarm (wrVolumeID r); _ \<leftarrow> outside_m (invalidate (pOS p) (wrStage r)); outside_m (os_Now (pOS p)) })
   }"

fun wait_until :: "nat \<Rightarrow> 'o plugin \<Rightarrow> watchRef \<Rightarrow> nat \<Rightarrow> nat option \<Rightarrow> ('o world, (bool \<times> nat) option) state" where
  "wait_until 0 p r until dropped = State_Monad.return None"
| "wait_until (Suc n) p r until dropped = do {
     t \<leftarrow> drop_due p r dropped;
     now \<leftarrow> outside_m (os_Now (pOS p));
     if until \<le> now then State_Monad.return (Some (True, t))
     else do {
       now' \<leftarrow> outside_m (os_Now (pOS p));
       ok \<leftarrow> outside_m (os_SleepCtx (pOS p) (wrCtx r) (min (until - now) (t + refusedRefresh - now')));
       if \<not> ok then State_Monad.return (Some (False, t)) else wait_until n p r until (Some t)
     }
   }"

definition waitDropping :: "nat \<Rightarrow> 'o plugin \<Rightarrow> watchRef \<Rightarrow> nat \<Rightarrow> nat option \<Rightarrow> ('o world, (bool \<times> nat) option) state" where
  "waitDropping n p r d dropped = do {
     now \<leftarrow> outside_m (os_Now (pOS p));
     wait_until n p r (now + d) dropped
   }"

section \<open>The target\<close>

text \<open>
  The first loop of run: \<open>n\<close> bounds the tries, None is a loop still trying. \<open>Some None\<close> means the watch ended.
\<close>

fun resolve_target :: "nat \<Rightarrow> 'o plugin \<Rightarrow> watchRef \<Rightarrow> smap \<Rightarrow> smap \<Rightarrow> nat \<Rightarrow>
    ('o world, (s3Client \<times> string \<times> string) option option) state" where
  "resolve_target 0 p r vc se delay = State_Monad.return None"
| "resolve_target (Suc n) p r vc se delay = do {
     t \<leftarrow> outside_m (volumeTarget p (wrVolumeID r) vc se);
     (case t of
        Inr (cfg, client, m) \<Rightarrow> State_Monad.return (Some (Some (client, BucketName m, listenPrefix (Prefix m))))
      | Inl e \<Rightarrow> do {
          ok \<leftarrow> outside_m (os_SleepCtx (pOS p) (wrCtx r) delay);
          if \<not> ok then State_Monad.return (Some None)
          else resolve_target n p r vc se (min (2 * delay) reconnectMax)
        })
   }"

section \<open>Connection after connection\<close>

text \<open>
  One call of Listen: the server's side of it, when the watch's context ends, counted from the
  request, and what the outside becomes meanwhile.
\<close>

record 'o listenEnv =
  leNet :: "listenRequest \<Rightarrow> exchange"
  leCtxEnd :: "nat option"
  leOutside :: "'o \<Rightarrow> 'o"

fun take_report :: "string \<Rightarrow> gather \<Rightarrow> report \<Rightarrow> gather" where
  "take_report pfx g Connected = dropAll g"
| "take_report pfx g (Heard ks) = foldl (\<lambda>g k. changed pfx k g) g ks"

definition connected_ago :: "(nat \<times> report) list \<Rightarrow> nat \<Rightarrow> nat option" where
  "connected_ago reports n = (case reports of (t, Connected) # _ \<Rightarrow> Some (n - t) | _ \<Rightarrow> None)"

definition was_refused :: "err option \<Rightarrow> bool" where
  "was_refused e = (case e of Some (Refused st b) \<Rightarrow> True | _ \<Rightarrow> False)"

text \<open>What a round leaves: whether the watch ended in it, the loop's variables, the watch's fields.\<close>

record watchState =
  wsRun :: runState
  wsDropped :: "nat option"
  wsGather :: gather

definition listen_round :: "'o plugin \<Rightarrow> watchRef \<Rightarrow> s3Client \<times> string \<times> string \<Rightarrow> nat \<Rightarrow> 'o listenEnv \<Rightarrow> watchState \<Rightarrow>
    ('o world, (bool \<times> watchState) option) state" where
  "listen_round p r target n env ws = (case target of (client, bucket, pfx) \<Rightarrow>
     (case Listen (pDeps p) (leNet env) client bucket pfx (leCtxEnd env) of
       (reports, e, t) \<Rightarrow> do {
         outside_m (State_Monad.update (leOutside env));
         (let ws = ws\<lparr>wsGather := foldl (take_report pfx) (wsGather ws) (map snd reports)\<rparr> in
         if (case leCtxEnd env of Some c \<Rightarrow> c \<le> t | None \<Rightarrow> False) then State_Monad.return (Some (True, ws))
         else (case run_round (wsRun ws) (connected_ago reports t) (was_refused e) of
             (ListenAgain d, st) \<Rightarrow> do {
               ok \<leftarrow> outside_m (os_SleepCtx (pOS p) (wrCtx r) d);
               State_Monad.return (Some (\<not> ok, ws\<lparr>wsRun := st\<rparr>))
             }
           | (WaitDropping d, st) \<Rightarrow> do {
               w \<leftarrow> waitDropping n p r d (wsDropped ws);
               State_Monad.return (map_option (\<lambda>(ok, t). (\<not> ok, ws\<lparr>wsRun := st, wsDropped := Some t\<rparr>)) w)
             }))
       }))"

text \<open>The second loop, for as many rounds as the environment plays; None when \<open>n\<close> did not suffice for a wait.\<close>

fun listen_loop :: "'o plugin \<Rightarrow> watchRef \<Rightarrow> s3Client \<times> string \<times> string \<Rightarrow> nat \<Rightarrow> 'o listenEnv list \<Rightarrow> watchState \<Rightarrow>
    ('o world, (bool \<times> watchState) option) state" where
  "listen_loop p r target n [] ws = State_Monad.return (Some (False, ws))"
| "listen_loop p r target n (env # envs) ws = do {
     s \<leftarrow> listen_round p r target n env ws;
     (case s of
        None \<Rightarrow> State_Monad.return None
      | Some (over, ws') \<Rightarrow> if over then State_Monad.return (Some (True, ws')) else listen_loop p r target n envs ws')
   }"

definition watch_run :: "'o plugin \<Rightarrow> watchRef \<Rightarrow> smap \<Rightarrow> smap \<Rightarrow> nat \<Rightarrow> 'o listenEnv list \<Rightarrow>
    ('o world, (bool \<times> watchState) option) state" where
  "watch_run p r vc se n envs = do {
     target \<leftarrow> resolve_target n p r vc se reconnectMin;
     (let ws = \<lparr>wsRun = run_start, wsDropped = None, wsGather = new_gather\<rparr> in
      case target of
        None \<Rightarrow> State_Monad.return None
      | Some None \<Rightarrow> State_Monad.return (Some (True, ws))
      | Some (Some target) \<Rightarrow> listen_loop p r target n envs ws)
   }"

section \<open>The clock\<close>

definition clock_doc :: "'o os \<Rightarrow> ('o \<Rightarrow> nat) \<Rightarrow> bool" where
  "clock_doc os clock \<longleftrightarrow>
     (\<forall>s. val_of (os_Now os) s = clock s \<and> clock s \<le> clock (exec (os_Now os) s)) \<and>
     (\<forall>q a s. clock s \<le> clock (exec (os_Setxattr os q a) s)) \<and>
     (\<forall>c d s. clock s + (if val_of (os_SleepCtx os c d) s then d else 0) \<le> clock (exec (os_SleepCtx os c d) s))"

definition due :: "nat option \<Rightarrow> nat \<Rightarrow> bool" where
  "due dropped now \<longleftrightarrow> (case dropped of Some t \<Rightarrow> t + refusedRefresh \<le> now | None \<Rightarrow> True)"

definition past :: "nat option \<Rightarrow> nat \<Rightarrow> bool" where
  "past dropped now \<longleftrightarrow> (\<forall>t. dropped = Some t \<longrightarrow> t \<le> now)"

definition since :: "nat option \<Rightarrow> nat \<Rightarrow> nat" where
  "since dropped now = (if due dropped now then now else the dropped)"

lemma drop_due_clock:
  assumes "clock_doc (pOS p) clock" "past dropped (clock (outside w))"
  shows "clock (outside w) \<le> clock (outside (exec (drop_due p r dropped) w))"
    "val_of (drop_due p r dropped) w \<le> clock (outside (exec (drop_due p r dropped) w))"
    "due dropped (clock (outside w)) \<Longrightarrow> clock (outside w) \<le> val_of (drop_due p r dropped) w"
    "\<not> due dropped (clock (outside w)) \<Longrightarrow> val_of (drop_due p r dropped) w = the dropped"
proof -
  let ?s = "exec (os_Now (pOS p)) (outside w)"
  let ?s1 = "exec (os_Setxattr (pOS p) (wrStage r) invalidateAttr) ?s"
  let ?s2 = "exec (os_Now (pOS p)) ?s1"
  have mono: "clock (outside w) \<le> clock ?s" "clock ?s \<le> clock ?s1" "clock ?s1 \<le> clock ?s2"
    and now: "\<And>x. val_of (os_Now (pOS p)) x = clock x" using assms(1) by (auto simp: clock_doc_def)
  have run: "val_of (drop_due p r dropped) w = (if due dropped (clock (outside w)) then clock ?s1 else the dropped) \<and>
    outside (exec (drop_due p r dropped) w) = (if due dropped (clock (outside w)) then ?s2 else ?s)"
    by (auto simp: drop_due_def due_def invalidate_def now exec_stopWarm split: option.split)
  show "clock (outside w) \<le> clock (outside (exec (drop_due p r dropped) w))"
    "due dropped (clock (outside w)) \<Longrightarrow> clock (outside w) \<le> val_of (drop_due p r dropped) w"
    using run mono by auto
  show "\<not> due dropped (clock (outside w)) \<Longrightarrow> val_of (drop_due p r dropped) w = the dropped"
    using run by (auto simp: due_def split: option.splits)
  show "val_of (drop_due p r dropped) w \<le> clock (outside (exec (drop_due p r dropped) w))"
    using run mono assms(2) by (auto simp: due_def past_def split: option.splits)
qed

text \<open>The world at the sleep of a round of waitDropping, and its length.\<close>

definition at_sleep :: "'o plugin \<Rightarrow> watchRef \<Rightarrow> nat option \<Rightarrow> 'o world \<Rightarrow> 'o world" where
  "at_sleep p r dropped w = (let w1 = exec (drop_due p r dropped) w in
     w1\<lparr>outside := exec (os_Now (pOS p)) (exec (os_Now (pOS p)) (outside w1))\<rparr>)"

definition sleep_time :: "'o plugin \<Rightarrow> watchRef \<Rightarrow> nat \<Rightarrow> nat option \<Rightarrow> 'o world \<Rightarrow> nat" where
  "sleep_time p r until dropped w = (let w1 = exec (drop_due p r dropped) w in
     min (until - val_of (os_Now (pOS p)) (outside w1))
       (val_of (drop_due p r dropped) w + refusedRefresh - val_of (os_Now (pOS p)) (exec (os_Now (pOS p)) (outside w1))))"

definition after_sleep :: "'o plugin \<Rightarrow> watchRef \<Rightarrow> nat \<Rightarrow> nat option \<Rightarrow> 'o world \<Rightarrow> 'o world" where
  "after_sleep p r until dropped w = (let w3 = at_sleep p r dropped w in
     w3\<lparr>outside := exec (os_SleepCtx (pOS p) (wrCtx r) (sleep_time p r until dropped w)) (outside w3)\<rparr>)"

lemma wait_until_Suc:
  assumes "val_of (os_Now (pOS p)) (outside (exec (drop_due p r dropped) w)) = now"
    and "val_of (os_SleepCtx (pOS p) (wrCtx r) (sleep_time p r until dropped w)) (outside (at_sleep p r dropped w)) = ok"
  shows "val_of (wait_until (Suc n) p r until dropped) w =
      (if until \<le> now then Some (True, val_of (drop_due p r dropped) w)
       else if \<not> ok then Some (False, val_of (drop_due p r dropped) w)
       else val_of (wait_until n p r until (Some (val_of (drop_due p r dropped) w))) (after_sleep p r until dropped w))"
    and "exec (wait_until (Suc n) p r until dropped) w =
      (if until \<le> now
       then (exec (drop_due p r dropped) w)\<lparr>outside := exec (os_Now (pOS p)) (outside (exec (drop_due p r dropped) w))\<rparr>
       else if \<not> ok then after_sleep p r until dropped w
       else exec (wait_until n p r until (Some (val_of (drop_due p r dropped) w))) (after_sleep p r until dropped w))"
  using assms by (simp_all add: after_sleep_def at_sleep_def sleep_time_def Let_def)

lemma after_sleep_clock:
  assumes "clock_doc (pOS p) clock" "past dropped (clock (outside w))"
    and "val_of (os_SleepCtx (pOS p) (wrCtx r) (sleep_time p r until dropped w)) (outside (at_sleep p r dropped w))"
  shows "until \<le> clock (outside (after_sleep p r until dropped w)) \<or>
      val_of (drop_due p r dropped) w + refusedRefresh \<le> clock (outside (after_sleep p r until dropped w))"
    and "val_of (drop_due p r dropped) w \<le> clock (outside (after_sleep p r until dropped w))"
proof -
  let ?w1 = "exec (drop_due p r dropped) w" let ?t = "val_of (drop_due p r dropped) w"
  let ?s1 = "exec (os_Now (pOS p)) (outside ?w1)" let ?s2 = "exec (os_Now (pOS p)) ?s1"
  have now: "\<And>x. val_of (os_Now (pOS p)) x = clock x" and mono: "clock (outside ?w1) \<le> clock ?s1" "clock ?s1 \<le> clock ?s2"
    using assms(1) by (auto simp: clock_doc_def)
  have "clock ?s2 + sleep_time p r until dropped w \<le> clock (outside (after_sleep p r until dropped w))"
    using assms(1,3) by (auto simp: clock_doc_def after_sleep_def at_sleep_def Let_def split: if_splits)
  moreover have "sleep_time p r until dropped w = min (until - clock (outside ?w1)) (?t + refusedRefresh - clock ?s1)"
    by (simp add: sleep_time_def Let_def now)
  ultimately show "until \<le> clock (outside (after_sleep p r until dropped w)) \<or>
      ?t + refusedRefresh \<le> clock (outside (after_sleep p r until dropped w))"
    "?t \<le> clock (outside (after_sleep p r until dropped w))"
    using mono drop_due_clock(2)[OF assms(1,2), of r] by (auto simp: min_def split: if_splits)
qed

lemma wait_until_over:
  assumes "clock_doc (pOS p) clock" "past dropped (clock (outside w))" "until \<le> clock (outside w)"
  shows "\<exists>x. val_of (wait_until (Suc n) p r until dropped) w = Some x"
  using drop_due_clock(1)[OF assms(1,2), of r] assms(1,3) by (auto simp: clock_doc_def)

lemma wait_until_returns:
  assumes "clock_doc (pOS p) clock"
  shows "past dropped (clock (outside w)) \<Longrightarrow>
    until \<le> since dropped (clock (outside w)) + n * refusedRefresh \<Longrightarrow>
    \<exists>x. val_of (wait_until (Suc n) p r until dropped) w = Some x"
proof (induction n arbitrary: dropped w)
  case 0
  then have "until \<le> clock (outside w)" by (auto simp: since_def due_def past_def split: option.splits if_splits)
  with assms 0(1) show ?case by (rule wait_until_over)
next
  case (Suc n)
  let ?t = "val_of (drop_due p r dropped) w" let ?w = "after_sleep p r until dropped w"
  let ?now = "val_of (os_Now (pOS p)) (outside (exec (drop_due p r dropped) w))"
  let ?ok = "val_of (os_SleepCtx (pOS p) (wrCtx r) (sleep_time p r until dropped w)) (outside (at_sleep p r dropped w))"
  note run = wait_until_Suc(1)[OF refl refl, where p = p and r = r and dropped = dropped and w = w and until = until and n = "Suc n"]
  show ?case
  proof (cases "until \<le> ?now \<or> \<not> ?ok")
    case True
    with run show ?thesis by auto
  next
    case False
    then have ok: ?ok by blast
    have t: "until \<le> ?t + Suc n * refusedRefresh"
      using Suc.prems(2) drop_due_clock(3,4)[OF assms Suc.prems(1), of r]
      by (auto simp: since_def split: if_splits)
    have t_le: "past (Some ?t) (clock (outside ?w))"
      using after_sleep_clock(2)[OF assms Suc.prems(1) ok] by (simp add: past_def)
    have "\<exists>x. val_of (wait_until (Suc n) p r until (Some ?t)) ?w = Some x"
    proof (cases "until \<le> clock (outside ?w)")
      case True
      then show ?thesis using wait_until_over[OF assms t_le] by blast
    next
      case False
      then have "?t + refusedRefresh \<le> clock (outside ?w)" using after_sleep_clock(1)[OF assms Suc.prems(1) ok] by blast
      with t have "until \<le> since (Some ?t) (clock (outside ?w)) + n * refusedRefresh"
        by (simp add: since_def due_def)
      with Suc.IH[OF t_le] show ?thesis by blast
    qed
    with run False show ?thesis by auto
  qed
qed

lemma waitDropping_returns:
  assumes "clock_doc (pOS p) clock" "past dropped (clock (outside w))" "d div refusedRefresh + 3 \<le> n"
  shows "\<exists>x. val_of (waitDropping n p r d dropped) w = Some x"
proof -
  obtain m where m: "n = Suc m" "d div refusedRefresh + 2 \<le> m" using assms(3) by (cases n) auto
  have "d < Suc (d div refusedRefresh) * refusedRefresh"
    by (metis add.commute dividend_less_div_times mult_Suc refusedRefresh_def zero_less_numeral)
  also have "\<dots> + refusedRefresh \<le> m * refusedRefresh" using mult_le_mono1[OF m(2), of refusedRefresh] by simp
  finally have d: "d + refusedRefresh \<le> m * refusedRefresh" by simp
  let ?w = "w\<lparr>outside := exec (os_Now (pOS p)) (outside w)\<rparr>"
  have now: "val_of (os_Now (pOS p)) (outside w) = clock (outside w)" "clock (outside w) \<le> clock (outside ?w)"
    using assms(1) by (auto simp: clock_doc_def)
  have "\<exists>x. val_of (wait_until (Suc m) p r (clock (outside w) + d) dropped) ?w = Some x"
    using assms(2) now(2) d
    by (intro wait_until_returns[OF assms(1)]) (auto simp: since_def due_def past_def split: option.splits)
  then show ?thesis by (simp add: waitDropping_def now(1) m(1) del: wait_until.simps)
qed

section \<open>The path of a watch\<close>

lemma take_report_path: "(watch_step pfx)\<^sup>*\<^sup>* g (take_report pfx g rep)"
proof (cases rep)
  case (Heard ks)
  have "(watch_step pfx)\<^sup>*\<^sup>* g (foldl (\<lambda>g k. changed pfx k g) g ks)"
    by (induction ks arbitrary: g) (auto intro: key_changed converse_rtranclp_into_rtranclp)
  with Heard show ?thesis by simp
qed (auto intro: drop_asked)

lemma take_reports_path: "(watch_step pfx)\<^sup>*\<^sup>* g (foldl (take_report pfx) g reps)"
  by (induction reps arbitrary: g) (auto intro: take_report_path rtranclp_trans)

lemma follows_wait_until [follows_intros]: "follows p (wait_until n p r until dropped)"
  by (induction n p r until dropped rule: wait_until.induct) (auto simp: drop_due_def intro!: follows_intros)

lemma follows_waitDropping [follows_intros]: "follows p (waitDropping n p r d dropped)"
  unfolding waitDropping_def by (intro follows_intros)

lemma follows_resolve [follows_intros]: "follows p (resolve_target n p r vc se delay)"
  by (induction n p r vc se delay rule: resolve_target.induct) (auto intro!: follows_intros)

lemma follows_round [follows_intros]: "follows p (listen_round p r target n env ws)"
  unfolding listen_round_def Let_def
  by (auto intro!: follows_intros split: prod.split runAction.split)

lemma follows_loop [follows_intros]: "follows p (listen_loop p r target n envs ws)"
  by (induction p r target n envs ws rule: listen_loop.induct) (auto intro!: follows_intros)

lemma follows_watch_run: "follows p (watch_run p r vc se n envs)"
  unfolding watch_run_def Let_def by (intro follows_intros)

lemma round_path:
  assumes "val_of (listen_round p r (client, bucket, pfx) n env ws) w = Some (over, ws')"
  shows "(watch_step pfx)\<^sup>*\<^sup>* (wsGather ws) (wsGather ws') \<and> (delay_ok (rsDelay (wsRun ws)) \<longrightarrow> delay_ok (rsDelay (wsRun ws')))"
proof -
  obtain reports e t where l: "Listen (pDeps p) (leNet env) client bucket pfx (leCtxEnd env) = (reports, e, t)"
    by (metis prod_cases3)
  obtain act st where a: "run_round (wsRun ws) (connected_ago reports t) (was_refused e) = (act, st)" by fastforce
  have "wsGather ws' = foldl (take_report pfx) (wsGather ws) (map snd reports) \<and> (wsRun ws' = wsRun ws \<or> wsRun ws' = st)"
    using assms l a by (auto simp: listen_round_def Let_def split: if_splits option.splits runAction.splits)
  then show ?thesis using take_reports_path run_round_ok[OF _ a] by metis
qed

lemma loop_path:
  "val_of (listen_loop p r (client, bucket, pfx) n envs ws) w = Some (over, ws') \<Longrightarrow> delay_ok (rsDelay (wsRun ws)) \<Longrightarrow>
    (watch_step pfx)\<^sup>*\<^sup>* (wsGather ws) (wsGather ws') \<and> delay_ok (rsDelay (wsRun ws'))"
proof (induction envs arbitrary: ws w)
  case (Cons env envs)
  let ?w = "exec (listen_round p r (client, bucket, pfx) n env ws) w"
  from Cons.prems(1) obtain ov ws1 where one: "val_of (listen_round p r (client, bucket, pfx) n env ws) w = Some (ov, ws1)"
    by (auto split: option.splits)
  note path = round_path[OF one]
  show ?case
  proof (cases ov)
    case True
    with Cons.prems one path show ?thesis by auto
  next
    case False
    with Cons.prems(1) one have "val_of (listen_loop p r (client, bucket, pfx) n envs ws1) ?w = Some (over, ws')" by simp
    with Cons.IH[of ws1 ?w] path Cons.prems(2) show ?thesis by (meson rtranclp_trans)
  qed
qed simp

section \<open>How old the cache gets\<close>

text \<open>
  A clock that only waiting moves, and a record of when the cache was dropped. \<open>fresh lim t ds now\<close>:
  from \<open>t\<close> on, through the drops \<open>ds\<close>, the cache was never older than \<open>lim\<close>, and now is at most
  \<open>refusedRefresh\<close> old.
\<close>

definition ideal_clock :: "'o os \<Rightarrow> ('o \<Rightarrow> nat) \<Rightarrow> ('o \<Rightarrow> nat list) \<Rightarrow> path \<Rightarrow> bool" where
  "ideal_clock os clock drops stage \<longleftrightarrow>
     (\<forall>s. val_of (os_Now os) s = clock s \<and> exec (os_Now os) s = s) \<and>
     (\<forall>q a s. clock (exec (os_Setxattr os q a) s) = clock s) \<and>
     (\<forall>s. drops (exec (os_Setxattr os stage invalidateAttr) s) = drops s @ [clock s]) \<and>
     (\<forall>c d s. drops (exec (os_SleepCtx os c d) s) = drops s \<and> clock s \<le> clock (exec (os_SleepCtx os c d) s) \<and>
        clock (exec (os_SleepCtx os c d) s) \<le> clock s + d \<and>
        (val_of (os_SleepCtx os c d) s \<longrightarrow> clock (exec (os_SleepCtx os c d) s) = clock s + d))"

fun fresh :: "nat \<Rightarrow> nat \<Rightarrow> nat list \<Rightarrow> nat \<Rightarrow> bool" where
  "fresh lim t [] now \<longleftrightarrow> t \<le> now \<and> now \<le> t + refusedRefresh"
| "fresh lim t (d # ds) now \<longleftrightarrow> t \<le> d \<and> d \<le> t + lim \<and> fresh lim d ds now"

lemma fresh_append: "fresh lim t (ds @ es) now \<longleftrightarrow> fresh lim t ds (last (t # ds)) \<and> fresh lim (last (t # ds)) es now"
  by (induction ds arbitrary: t) auto

lemma fresh_last: "fresh lim t ds now \<Longrightarrow> fresh lim t ds (last (t # ds)) \<and> last (t # ds) \<le> now \<and> now \<le> last (t # ds) + refusedRefresh"
  by (induction ds arbitrary: t) auto

lemma fresh_later:
  "fresh lim t ds now \<Longrightarrow> last (t # ds) \<le> now' \<Longrightarrow> now' \<le> last (t # ds) + refusedRefresh \<Longrightarrow> fresh lim t ds now'"
  by (induction ds arbitrary: t) auto

lemma ideal_doc: "ideal_clock os clock drops stage \<Longrightarrow> clock_doc os clock"
  by (auto simp: ideal_clock_def clock_doc_def)

lemma drop_due_ideal:
  assumes "ideal_clock (pOS p) clock drops (wrStage r)"
  shows "val_of (drop_due p r dropped) w = (if due dropped (clock (outside w)) then clock (outside w) else the dropped)"
    and "clock (outside (exec (drop_due p r dropped) w)) = clock (outside w)"
    and "drops (outside (exec (drop_due p r dropped) w)) =
      drops (outside w) @ (if due dropped (clock (outside w)) then [clock (outside w)] else [])"
  using assms
  by (auto simp: drop_due_def ideal_clock_def invalidate_def exec_stopWarm due_def split: option.split)

lemma wait_until_fresh:
  assumes "ideal_clock (pOS p) clock drops (wrStage r)" "refusedRefresh \<le> lim"
  shows "val_of (wait_until n p r until dropped) w = Some (ok, t) \<Longrightarrow> dropped = Some t0 \<or> dropped = None \<Longrightarrow>
    t0 \<le> clock (outside w) \<Longrightarrow> clock (outside w) \<le> t0 + lim \<Longrightarrow>
    \<exists>ds. drops (outside (exec (wait_until n p r until dropped) w)) = drops (outside w) @ ds \<and>
      t = last (t0 # ds) \<and> fresh lim t0 ds (clock (outside (exec (wait_until n p r until dropped) w)))"
proof (induction n arbitrary: dropped w t0)
  case (Suc n)
  let ?t = "val_of (drop_due p r dropped) w" let ?w = "after_sleep p r until dropped w"
  let ?w1 = "exec (drop_due p r dropped) w"
  let ?ok = "val_of (os_SleepCtx (pOS p) (wrCtx r) (sleep_time p r until dropped w)) (outside (at_sleep p r dropped w))"
  define ds where "ds = (if due dropped (clock (outside w)) then [clock (outside w)] else [])"
  note ideal = drop_due_ideal[OF assms(1), of dropped w]
  have now: "\<And>s. val_of (os_Now (pOS p)) s = clock s" "\<And>s. exec (os_Now (pOS p)) s = s"
    and slept_s: "\<And>c d s. drops (exec (os_SleepCtx (pOS p) c d) s) = drops s \<and> clock s \<le> clock (exec (os_SleepCtx (pOS p) c d) s) \<and>
      clock (exec (os_SleepCtx (pOS p) c d) s) \<le> clock s + d"
    using assms(1) by (auto simp: ideal_clock_def)
  note run = wait_until_Suc[where p = p and r = r and dropped = dropped and w = w and until = until and n = n, OF now(1) refl]
  have ds: "drops (outside ?w1) = drops (outside w) @ ds" "?t = last (t0 # ds)"
    using Suc.prems(2) ideal by (auto simp: ds_def due_def split: option.splits)
  have fresh: "fresh lim t0 ds (clock (outside w))" "?t \<le> clock (outside w)" "clock (outside w) \<le> ?t + refusedRefresh"
    using Suc.prems(2-4) ideal(1) by (auto simp: ds_def due_def refusedRefresh_def split: option.splits if_splits)
  have sleep: "drops (outside ?w) = drops (outside ?w1)" "clock (outside w) \<le> clock (outside ?w)"
    "clock (outside ?w) \<le> clock (outside w) + sleep_time p r until dropped w"
    using slept_s[of "wrCtx r" "sleep_time p r until dropped w" "outside ?w1"] ideal(2)
    by (simp_all add: after_sleep_def at_sleep_def Let_def now)
  have "sleep_time p r until dropped w \<le> ?t + refusedRefresh - clock (outside w)"
    by (simp add: sleep_time_def Let_def now ideal(2))
  with sleep(2,3) fresh(3) have slept: "?t \<le> clock (outside ?w)" "clock (outside ?w) \<le> ?t + refusedRefresh"
    using fresh(2) by linarith+
  have known: "fresh lim t0 ds (clock (outside ?w))"
    using fresh_later[OF fresh(1)] slept ds(2) by simp
  show ?case
  proof (cases "until \<le> clock (outside ?w1) \<or> \<not> ?ok")
    case True
    then have "t = ?t" "outside (exec (wait_until (Suc n) p r until dropped) w) \<in> {outside ?w1, outside ?w}"
      using run Suc.prems(1) by (auto simp: now simp del: wait_until.simps split: if_splits)
    then show ?thesis using ds fresh(1) known sleep(1) ideal(2)
      by (auto simp del: wait_until.simps intro!: exI[of _ ds])
  next
    case False
    have "val_of (wait_until n p r until (Some ?t)) ?w = Some (ok, t)"
      using run(1) Suc.prems(1) False by (simp del: wait_until.simps)
    from Suc.IH[OF this _ slept(1)] slept(2) assms(2) obtain es where es:
      "drops (outside (exec (wait_until n p r until (Some ?t)) ?w)) = drops (outside ?w) @ es" "t = last (?t # es)"
      "fresh lim ?t es (clock (outside (exec (wait_until n p r until (Some ?t)) ?w)))" by auto
    have "fresh lim t0 (ds @ es) (clock (outside (exec (wait_until n p r until (Some ?t)) ?w)))"
      using es(3) fresh_last[OF fresh(1)] ds(2) by (simp add: fresh_append)
    moreover have "last (t0 # (ds @ es)) = t" using es(2) ds(2) by auto
    ultimately show ?thesis using run(2) False es(1) sleep(1) ds(1)
      by (intro exI[of _ "ds @ es"]) (simp del: wait_until.simps)
  qed
qed simp

text \<open>A connection that is not made: nothing is reported, and the clock moves on by the time Listen took.\<close>

definition unheard :: "'o plugin \<Rightarrow> ('o \<Rightarrow> nat) \<Rightarrow> ('o \<Rightarrow> nat list) \<Rightarrow> s3Client \<times> string \<times> string \<Rightarrow> 'o listenEnv \<Rightarrow> bool" where
  "unheard p clock drops target env \<longleftrightarrow> (case target of (client, bucket, pfx) \<Rightarrow>
     (case Listen (pDeps p) (leNet env) client bucket pfx (leCtxEnd env) of (reports, e, t) \<Rightarrow>
        reports = [] \<and> (\<forall>s. clock (leOutside env s) = clock s + t \<and> drops (leOutside env s) = drops s)))"

lemma round_unheard:
  assumes "ideal_clock (pOS p) clock drops (wrStage r)" "unheard p clock drops target env" "8 \<le> n"
    and "delay_ok (rsDelay (wsRun ws))" "wsDropped ws = Some t0 \<or> wsDropped ws = None"
    and "t0 \<le> clock (outside w)" "clock (outside w) \<le> t0 + refusedRefresh"
  defines "w' \<equiv> exec (listen_round p r target n env ws) w"
  shows "\<exists>over ws' ds. val_of (listen_round p r target n env ws) w = Some (over, ws') \<and>
    drops (outside w') = drops (outside w) @ ds \<and> fresh (refusedRefresh + listenIdle) t0 ds (last (t0 # ds)) \<and>
    last (t0 # ds) \<le> clock (outside w') \<and>
    clock (outside w') \<le> last (t0 # ds) + refusedRefresh + (if over then listenIdle else 0) \<and>
    delay_ok (rsDelay (wsRun ws')) \<and> (over \<or> wsDropped ws' = Some (last (t0 # ds)))"
proof -
  obtain client bucket pfx where target: "target = (client, bucket, pfx)" by (metis prod_cases3)
  obtain e t where l: "Listen (pDeps p) (leNet env) client bucket pfx (leCtxEnd env) = ([], e, t)"
    and env: "\<And>s. clock (leOutside env s) = clock s + t" "\<And>s. drops (leOutside env s) = drops s"
    using assms(2) by (auto simp: unheard_def target)
  have t: "t \<le> listenIdle" by (rule s3listen.unheard_soon[OF l])
  let ?w = "w\<lparr>outside := leOutside env (outside w)\<rparr>"
  show ?thesis
  proof (cases "\<exists>c. leCtxEnd env = Some c \<and> c \<le> t")
    case True
    then have "val_of (listen_round p r target n env ws) w = Some (True, ws)" "w' = ?w"
      using l by (auto simp: w'_def listen_round_def target Let_def)
    with assms(4,6,7) env t show ?thesis by (auto intro!: exI[of _ "[]"])
  next
    case False
    obtain d st where a: "run_round (wsRun ws) None (was_refused e) = (WaitDropping d, st)"
      by (auto simp: run_round_def Let_def)
    have st: "delay_ok (rsDelay st)" and d: "d = refusedRetry \<or> delay_ok d"
      using run_round_ok[OF assms(4) a] by (auto simp: round_ok_def split: if_splits)
    then have "d div refusedRefresh \<le> 5"
      by (auto simp: refusedRetry_def refusedRefresh_def delay_ok_def reconnectMax_def)
    moreover have "past (wsDropped ws) (clock (outside ?w))" using assms(5,6) env by (auto simp: past_def)
    ultimately obtain ok t' where v: "val_of (waitDropping n p r d (wsDropped ws)) ?w = Some (ok, t')"
      using waitDropping_returns[OF ideal_doc[OF assms(1)], of "wsDropped ws" ?w d n r] assms(3) by fastforce
    have now: "val_of (os_Now (pOS p)) s = clock s" "exec (os_Now (pOS p)) s = s" for s
      using assms(1) by (auto simp: ideal_clock_def)
    have run: "val_of (listen_round p r target n env ws) w = Some (\<not> ok, ws\<lparr>wsGather := wsGather ws, wsRun := st, wsDropped := Some t'\<rparr>)"
      "w' = exec (waitDropping n p r d (wsDropped ws)) ?w"
      using l a v False
      by (auto simp: w'_def listen_round_def target Let_def connected_ago_def split: option.splits)
    have "val_of (wait_until n p r (clock (outside ?w) + d) (wsDropped ws)) ?w = Some (ok, t')"
      "exec (waitDropping n p r d (wsDropped ws)) ?w = exec (wait_until n p r (clock (outside ?w) + d) (wsDropped ws)) ?w"
      using v by (simp_all add: waitDropping_def now)
    with wait_until_fresh[OF assms(1), of "refusedRefresh + listenIdle" n "clock (outside ?w) + d" "wsDropped ws" ?w ok t' t0]
      assms(5,6,7) env t obtain ds where
      "drops (outside w') = drops (outside w) @ ds" "t' = last (t0 # ds)"
      "fresh (refusedRefresh + listenIdle) t0 ds (clock (outside w'))"
      using run(2) by auto
    with run(1) st fresh_last show ?thesis by fastforce
  qed
qed

lemma loop_unheard:
  assumes "ideal_clock (pOS p) clock drops (wrStage r)" "8 \<le> n"
  shows "\<forall>env \<in> set envs. unheard p clock drops target env \<Longrightarrow> delay_ok (rsDelay (wsRun ws)) \<Longrightarrow>
    wsDropped ws = Some t0 \<or> wsDropped ws = None \<Longrightarrow> t0 \<le> clock (outside w) \<Longrightarrow> clock (outside w) \<le> t0 + refusedRefresh \<Longrightarrow>
    \<exists>over ws' ds. val_of (listen_loop p r target n envs ws) w = Some (over, ws') \<and>
      drops (outside (exec (listen_loop p r target n envs ws) w)) = drops (outside w) @ ds \<and>
      fresh (refusedRefresh + listenIdle) t0 ds (last (t0 # ds)) \<and>
      clock (outside (exec (listen_loop p r target n envs ws) w)) \<le> last (t0 # ds) + refusedRefresh + listenIdle"
proof (induction envs arbitrary: ws w t0)
  case (Cons env envs)
  let ?w = "exec (listen_round p r target n env ws) w"
  have env: "unheard p clock drops target env" using Cons.prems(1) by simp
  from round_unheard[OF assms(1) env assms(2) Cons.prems(2-5)] obtain over ws' ds where
    r: "val_of (listen_round p r target n env ws) w = Some (over, ws')" "drops (outside ?w) = drops (outside w) @ ds"
      "fresh (refusedRefresh + listenIdle) t0 ds (last (t0 # ds))" "last (t0 # ds) \<le> clock (outside ?w)"
      "clock (outside ?w) \<le> last (t0 # ds) + refusedRefresh + (if over then listenIdle else 0)"
      "delay_ok (rsDelay (wsRun ws'))" "over \<or> wsDropped ws' = Some (last (t0 # ds))"
    by blast
  show ?case
  proof (cases over)
    case True
    with r show ?thesis by (auto intro!: exI[of _ ds])
  next
    case False
    with r have dropped: "wsDropped ws' = Some (last (t0 # ds)) \<or> wsDropped ws' = None"
      and near: "clock (outside ?w) \<le> last (t0 # ds) + refusedRefresh" by auto
    have envs: "\<forall>env \<in> set envs. unheard p clock drops target env" using Cons.prems(1) by simp
    from Cons.IH[OF envs r(6) dropped r(4) near] obtain over2 ws2 es where
      "val_of (listen_loop p r target n envs ws') ?w = Some (over2, ws2)"
      "drops (outside (exec (listen_loop p r target n envs ws') ?w)) = drops (outside ?w) @ es"
      "fresh (refusedRefresh + listenIdle) (last (t0 # ds)) es (last (last (t0 # ds) # es))"
      "clock (outside (exec (listen_loop p r target n envs ws') ?w)) \<le> last (last (t0 # ds) # es) + refusedRefresh + listenIdle"
      by blast
    moreover have "last (last (t0 # ds) # es) = last (t0 # ds @ es)" by simp
    ultimately show ?thesis
      using r(1-3) False fresh_append[of "refusedRefresh + listenIdle" t0 ds es "last (t0 # ds @ es)"]
      by (intro exI[of _ over2] exI[of _ ws2] exI[of _ "ds @ es"]) simp
  qed
qed (auto intro!: exI[of _ "[]"])

text \<open>What a round hears is in the watch's fields when it ends, or was taken by a flush beside it.\<close>

lemma changed_pending: "changedDir pfx k = Some dir \<Longrightarrow> dir \<in> pending (changed pfx k g)"
  by (simp add: changed_def Let_def)

lemma changed_keeps: "pending g \<subseteq> pending (changed pfx k g)"
  by (auto simp: changed_def Let_def split: option.split)

lemma changed_all_keep: "pending g \<subseteq> pending (foldl (\<lambda>g k. changed pfx k g) g ks)"
  by (induction ks arbitrary: g) (simp, metis changed_keeps foldl_Cons subset_trans)

lemma changed_all: "k \<in> set ks \<Longrightarrow> changedDir pfx k = Some dir \<Longrightarrow> dir \<in> pending (foldl (\<lambda>g k. changed pfx k g) g ks)"
proof (induction ks arbitrary: g)
  case (Cons x ks)
  then show ?case
    using changed_pending[of pfx k dir g] changed_all_keep[of "changed pfx k g" pfx ks] by auto
qed simp

lemma report_keeps: "pending g \<subseteq> pending (take_report pfx g rep)"
  by (cases rep) (simp_all add: dropAll_def changed_all_keep)

lemma reports_keep: "pending g \<subseteq> pending (foldl (take_report pfx) g reps)"
  by (induction reps arbitrary: g) (simp, metis report_keeps foldl_Cons subset_trans)

lemma reports_pending:
  "Heard ks \<in> set reps \<Longrightarrow> k \<in> set ks \<Longrightarrow> changedDir pfx k = Some dir \<Longrightarrow> dir \<in> pending (foldl (take_report pfx) g reps)"
proof (induction reps arbitrary: g)
  case (Cons x reps)
  then show ?case
    using changed_all[of k ks pfx dir g] reports_keep[of "take_report pfx g (Heard ks)" pfx reps] by auto
qed simp

lemma changed_dropping: "dropping g \<Longrightarrow> dropping (foldl (\<lambda>g k. changed pfx k g) g ks)"
  by (induction ks arbitrary: g) (auto simp: changed_def Let_def split: option.split)

lemma reports_dropping: "dropping g \<Longrightarrow> dropping (foldl (take_report pfx) g reps)"
proof (induction reps arbitrary: g)
  case (Cons x reps)
  have "dropping (take_report pfx g x)"
    using Cons.prems by (cases x) (simp_all add: dropAll_def changed_dropping)
  with Cons.IH show ?case by simp
qed simp

lemma gather_inv_path: "(watch_step pfx)\<^sup>*\<^sup>* g g' \<Longrightarrow> gather_inv g \<Longrightarrow> gather_inv g'"
  by (induction rule: rtranclp_induct) (auto intro: gather_inv_step)

section \<open>Properties\<close>


text \<open>C25. Waiting while the bucket is not heard ends: whatever dropping the cache costs, a wait of \<open>d\<close>
  takes at most three rounds more than \<open>refusedRefresh\<close> fits into \<open>d\<close>: eight for the longest.\<close>

theorem wait_dropping_returns:
  assumes "clock_doc (pOS p) clock" "past dropped (clock (outside w))" "d div refusedRefresh + 3 \<le> n"
  shows "\<exists>ok t. val_of (waitDropping n p r d dropped) w = Some (ok, t)"
  using waitDropping_returns[OF assms] by auto

definition clocked_os :: "(nat \<times> nat list) os" where
  "clocked_os = idle_os\<lparr>os_Now := State (\<lambda>s. (fst s, s)),
     os_SleepCtx := \<lambda>c d. State (\<lambda>s. (True, (fst s + d, snd s))),
     os_Setxattr := \<lambda>q a. State (\<lambda>s. (None, (fst s, snd s @ [fst s])))\<rparr>"

definition clocked_plugin :: "(nat \<times> nat list) plugin" where
  "clocked_plugin = idle_plugin\<lparr>pOS := clocked_os\<rparr>"

lemma clocked_ideal: "ideal_clock (pOS clocked_plugin) fst snd stage"
  by (simp add: ideal_clock_def clocked_plugin_def clocked_os_def)

definition quiet_watch :: watchRef where
  "quiet_watch = \<lparr>wrVolumeID = ''b/p'', wrStage = ''/s'', wrRewarm = False, wrCtx = 0\<rparr>"

theorem wait_dropping_returns_witness:
  "\<exists>ok t. val_of (waitDropping 8 clocked_plugin quiet_watch refusedRetry None) (start_world (0, [])) = Some (ok, t)"
  by (rule wait_dropping_returns[OF ideal_doc[OF clocked_ideal]])
    (simp_all add: past_def refusedRetry_def refusedRefresh_def)


definition refusing_env :: "(nat \<times> nat list) listenEnv" where
  "refusing_env = \<lparr>leNet = \<lambda>_. \<lparr>exRequest = None, exWait = 9, exAnswer = Answer 403 ''denied'' 1 []\<rparr>,
     leCtxEnd = None, leOutside = \<lambda>s. (fst s + 10, snd s)\<rparr>"


text \<open>C9. From the bucket to the mount: when the stream holds and the server writes its keys as MinIO
  does, every object created or removed below the mount's prefix leaves the directory that lists it
  waiting for a flush that is scheduled, and the connection itself has asked for a drop of the whole
  cache, unless the timers and droppers beside the loop served them already.\<close>

theorem heard_change_gathered:
  assumes "url_Parse (pDeps p) (Endpoint (clConfig client)) = Inr u"
    and "leNet env (listen_request (clConfig client) u bucket pfx) = \<lparr>exRequest = None, exWait = wait,
      exAnswer = Answer 200 body bwait (map (\<lambda>(gap, ks). (gap, Inr (map query_escape ks))) records)\<rparr>"
    and "wait < listenIdle" "\<forall>(gap, ks) \<in> set records. gap < listenIdle \<and> '''' \<notin> set ks" "leCtxEnd env = None"
    and "(gap, ks) \<in> set records" "pfx @ join [slash] (ds @ [f]) \<in> set ks" "\<forall>d \<in> set (ds @ [f]). plain d"
    and "gather_inv (wsGather ws)" "val_of (listen_round p r (client, bucket, pfx) n env ws) w = Some (over, ws')"
  shows "rel_dir ds \<in> pending (wsGather ws') \<and> timers (wsGather ws') = 1 \<and> dropping (wsGather ws')"
proof -
  obtain reports e t where l: "Listen (pDeps p) (leNet env) client bucket pfx None = (reports, e, t)"
    by (metis prod_cases3)
  from listen_hears_all[where net = "leNet env" and d = "pDeps p" and client = client and bucket = bucket and pfx = pfx, OF assms(1-4)] l have reports: "map snd reports = Connected # map (\<lambda>(_, ks). Heard ks) records"
    by simp
  have g: "wsGather ws' = foldl (take_report pfx) (wsGather ws) (map snd reports)"
    using assms(5,10) l by (auto simp: listen_round_def Let_def split: if_splits option.splits runAction.splits prod.splits)
  have "Heard ks \<in> set (map snd reports)" using assms(6) reports by force
  moreover have "changedDir pfx (pfx @ join [slash] (ds @ [f])) = Some (rel_dir ds)"
    using changedDir_below[of ds f "''''" pfx] assms(8) by simp
  ultimately have dir: "rel_dir ds \<in> pending (wsGather ws')" unfolding g using assms(7) by (intro reports_pending) auto
  have "dropping (take_report pfx (wsGather ws) Connected)" by (simp add: dropAll_def)
  then have drop: "dropping (wsGather ws')" unfolding g reports by (simp add: reports_dropping)
  have "gather_inv (wsGather ws')" using round_path[OF assms(10)] gather_inv_path assms(9) by blast
  with dir drop show ?thesis by (auto simp: gather_inv_def)
qed

theorem heard_change_gathered_witness:
  "\<exists>over ws'. val_of (listen_round clocked_plugin quiet_watch (listen_client, ''b'', ''p/'') 8
      \<lparr>leNet = \<lambda>_. \<lparr>exRequest = None, exWait = 7, exAnswer = Answer 200 '''' 0 [(10000, Inr [''p%2Fa%2Fb.json''])]\<rparr>,
        leCtxEnd = None, leOutside = id\<rparr>
      \<lparr>wsRun = run_start, wsDropped = None, wsGather = new_gather\<rparr>) (start_world (0, [])) = Some (over, ws') \<and>
    ''a'' \<in> pending (wsGather ws')"
proof -
  let ?env = "\<lparr>leNet = \<lambda>_. \<lparr>exRequest = None, exWait = 7, exAnswer = Answer 200 '''' 0 [(10000, Inr [''p%2Fa%2Fb.json''])]\<rparr>,
      leCtxEnd = None, leOutside = id :: nat \<times> nat list \<Rightarrow> _\<rparr>"
  let ?ws = "\<lparr>wsRun = run_start, wsDropped = None, wsGather = new_gather\<rparr>"
  let ?round = "listen_round clocked_plugin quiet_watch (listen_client, ''b'', ''p/'') 8 ?env ?ws"
  have key: "query_escape ''p/a/b.json'' = ''p%2Fa%2Fb.json''" by code_simp
  have keys: "listen_keys [''p%2Fa%2Fb.json''] = [''p/a/b.json'']" by code_simp
  obtain reports e t where l: "Listen (pDeps clocked_plugin) (leNet ?env) listen_client ''b'' ''p/'' None = (reports, e, t)"
    by (metis prod_cases3)
  have hears: "map snd reports = [Connected, Heard [''p/a/b.json'']] \<and> e \<noteq> None \<and> (\<forall>st b. e \<noteq> Some (Refused st b))"
    using l by (auto simp: Listen_def clocked_plugin_def idle_plugin_def cutoff_def cut_error_def listenIdle_def listenPing_def keys)
  then obtain over ws' where run: "val_of ?round (start_world (0, [])) = Some (over, ws')"
    using l by (fastforce simp: listen_round_def Let_def run_round_def connected_ago_def was_refused_def
        split: option.splits err.splits)
  have "gather_inv new_gather" by (simp add: gather_inv_def new_gather_def)
  with heard_change_gathered[where p = clocked_plugin and client = listen_client and u = "\<lparr>Scheme = ''https'', Hostname = ''s3'', Port = ''''\<rparr>"
      and env = ?env and wait = 7 and body = "''''" and bwait = 0 and records = "[(10000, [''p/a/b.json''])]" and gap = 10000
      and ks = "[''p/a/b.json'']" and ds = "[''a'']" and f = "''b.json''", OF _ _ _ _ _ _ _ _ _ run]
  have "''a'' \<in> pending (wsGather ws')"
    by (simp add: clocked_plugin_def idle_plugin_def listen_client_def key listenIdle_def listenPing_def plain_def rel_dir_def)
  with run show ?thesis by blast
qed

end
