(* ===== verification/Driver.thy ===== *)
theory Driver
  imports Supervisor Mounter
begin

text \<open>
  The driver around the services: the Identity service (pkg/driver/identityserver.go), New and Run
  of pkg/driver/driver.go up to the gRPC server, and main (cmd/s3driver/main.go). \<open>net\<close>, \<open>url\<close> and
  gRPC's server are the parameter \<open>serverEnv\<close>; glog.Fatalf ends the process, with the text it logs.
\<close>

section \<open>The driver and its Identity service\<close>

definition vendorVersion :: string where "vendorVersion = ''v1.34.8''"
definition driverName :: string where "driverName = ''csi.lazedo.dev''"

record 'o driver =
  drName :: string
  drVersion :: string
  drNodeID :: string
  drEndpoint :: string
  drK8s :: "'o k8s option"

text \<open>New, given what newK8sClients answered; it never fails.\<close>

definition New_driver :: "err + 'o k8s \<Rightarrow> string \<Rightarrow> string \<Rightarrow> 'o driver" where
  "New_driver clients nodeID endpoint = \<lparr>drName = driverName, drVersion = vendorVersion, drNodeID = nodeID,
     drEndpoint = endpoint, drK8s = (case clients of Inl e \<Rightarrow> None | Inr k \<Rightarrow> Some k)\<rparr>"

definition GetPluginInfo :: "'o driver \<Rightarrow> err + (string \<times> string)" where
  "GetPluginInfo d =
     (if drName d = '''' then Inl (Status Unavailable ''Driver name not configured'')
      else if drVersion d = '''' then Inl (Status Unavailable ''Driver version not configured'')
      else Inr (drName d, drVersion d))"

definition Probe :: "'o driver \<Rightarrow> unit" where
  "Probe d = ()"

datatype pluginCapability = CONTROLLER_SERVICE

definition GetPluginCapabilities :: "'o driver \<Rightarrow> pluginCapability list" where
  "GetPluginCapabilities d = [CONTROLLER_SERVICE]"

section \<open>Serving\<close>

record endpointURL =
  euScheme :: string
  euPath :: path
  euHost :: string

record 'o serverEnv =
  url_ParseEndpoint :: "string \<Rightarrow> err + endpointURL"
  net_Listen :: "string \<Rightarrow> string \<Rightarrow> ('o, err option) state"
  fp_Abs :: "path \<Rightarrow> ('o, path option) state"
  grpc_Serve :: "('o, err option) state"

datatype exit = Fatal string | Returned

text \<open>The socket's address, with what has to be there for it, and out of its way.\<close>

definition listen_address :: "'o os \<Rightarrow> endpointURL \<Rightarrow> ('o, string + string) state" where
  "listen_address os u =
     (if euScheme u = ''unix'' then do {
        e \<leftarrow> os_MkdirAll os (path_dir (euPath u));
        (case e of
           Some (n, m) \<Rightarrow> State_Monad.return (Inl (''Failed to create directory for socket: '' @ m))
         | None \<Rightarrow> do {
             r \<leftarrow> os_Remove os (euPath u);
             State_Monad.return (case r of
               Some (n, m) \<Rightarrow> if n = ENOENT then Inr (euPath u) else Inl (''Failed to remove existing socket: '' @ m)
             | None \<Rightarrow> Inr (euPath u))
           })
      }
      else if euScheme u = ''tcp'' then State_Monad.return (Inr (euHost u))
      else State_Monad.return (Inl (''Unsupported protocol: '' @ euScheme u)))"

text \<open>
  From the endpoint to the end of the process. The removal deferred to the return of Run does not
  happen when Fatalf ends the process.
\<close>

definition serve_endpoint :: "'o os \<Rightarrow> 'o serverEnv \<Rightarrow> string \<Rightarrow> ('o, exit) state" where
  "serve_endpoint os env endpoint =
     (case url_ParseEndpoint env endpoint of
        Inl e \<Rightarrow> State_Monad.return (Fatal (''Failed to parse endpoint '' @ endpoint @ '': '' @ error_text e))
      | Inr u \<Rightarrow> do {
          a \<leftarrow> listen_address os u;
          (case a of
             Inl m \<Rightarrow> State_Monad.return (Fatal m)
           | Inr addr \<Rightarrow> do {
               l \<leftarrow> net_Listen env (euScheme u) addr;
               (case l of
                  Some e \<Rightarrow> State_Monad.return (Fatal (''Failed to listen on '' @ addr @ '': '' @ error_text e))
                | None \<Rightarrow> do {
                    abs \<leftarrow> (if euScheme u = ''unix'' then fp_Abs env addr else State_Monad.return None);
                    s \<leftarrow> grpc_Serve env;
                    (case s of
                       Some e \<Rightarrow> State_Monad.return (Fatal (''Failed to serve: '' @ error_text e))
                     | None \<Rightarrow> (case abs of
                         None \<Rightarrow> State_Monad.return Returned
                       | Some q \<Rightarrow> do { _ \<leftarrow> os_Remove os q; State_Monad.return Returned }))
                  })
             })
        })"

text \<open>
  Run. The supervisor's loop starts beside it, on the supervisor made here: \<open>run\<close> of theory
  Supervisor with the plugin and the interval returned. The plugin's name, node and clients are the
  driver's.
\<close>

definition Run :: "'o plugin \<Rightarrow> 'o serverEnv \<Rightarrow> 'o driver \<Rightarrow> ('o world, exit \<times> ('o plugin \<times> int)) state" where
  "Run p env d = do {
     sup \<leftarrow> newSupervisor (p\<lparr>pDriver := drName d, pNodeID := drNodeID d, pK8s := drK8s d\<rparr>);
     x \<leftarrow> outside_m (serve_endpoint (pOS p) env (drEndpoint d));
     State_Monad.return (x, sup)
   }"

text \<open>main, after the flags are parsed; a bundle that cannot be read or trusted is only logged.\<close>

definition trust_configured :: "'o os \<Rightarrow> ('o, unit) state" where
  "trust_configured os = do {
     f \<leftarrow> os_Getenv os ''CA_BUNDLE_FILE'';
     (if f = '''' then State_Monad.return ()
      else do {
        pem \<leftarrow> os_ReadFile os f;
        (case pem of
           Inl e \<Rightarrow> State_Monad.return ()
         | Inr pem \<Rightarrow> do { _ \<leftarrow> TrustCABundle os pem; State_Monad.return () })
      })
   }"

definition main_program :: "'o plugin \<Rightarrow> 'o serverEnv \<Rightarrow> err + 'o k8s \<Rightarrow> string \<Rightarrow> string \<Rightarrow> ('o world, exit \<times> ('o plugin \<times> int)) state" where
  "main_program p env clients nodeID endpoint = do {
     outside_m (trust_configured (pOS p));
     Run p env (New_driver clients nodeID endpoint)
   }"

section \<open>Lemmas\<close>

text \<open>The supervisor works under the driver's name, node and clients.\<close>

lemma Run_supervisor:
  "val_of (Run p env d) w = (x, (p', interval)) \<Longrightarrow> pDriver p' = drName d \<and> pNodeID p' = drNodeID d \<and> pK8s p' = drK8s d"
  by (auto simp: Run_def newSupervisor_def Let_def split: prod.splits)

lemma plugin_info: "GetPluginInfo (New_driver k nodeID endpoint) = Inr (''csi.lazedo.dev'', ''v1.34.8'')"
  by (simp add: GetPluginInfo_def New_driver_def driverName_def vendorVersion_def)

text \<open>
  A gRPC server is started only on a socket that was just listened on; and the socket's file is
  removed at the end only if Serve returns no error.
\<close>

lemma fatal_keeps_socket:
  assumes "url_ParseEndpoint env endpoint = Inr u" "val_of (serve_endpoint os env endpoint) s = Fatal m"
    and "val_of (listen_address os u) s = Inr addr"
  shows "exec (serve_endpoint os env endpoint) s \<in>
    (let s1 = exec (listen_address os u) s; s2 = exec (net_Listen env (euScheme u) addr) s1 in
     {s2, exec (grpc_Serve env) s2, exec (grpc_Serve env) (exec (fp_Abs env addr) s2)})"
  using assms by (auto simp: serve_endpoint_def Let_def split: option.splits if_splits)

lemma unsupported_scheme:
  assumes "url_ParseEndpoint env endpoint = Inr u" "euScheme u \<noteq> ''unix''" "euScheme u \<noteq> ''tcp''"
  shows "val_of (serve_endpoint os env endpoint) s = Fatal (''Unsupported protocol: '' @ euScheme u)"
    "exec (serve_endpoint os env endpoint) s = s"
  using assms by (simp_all add: serve_endpoint_def listen_address_def)

end
