(* ===== verification/S3Store.thy ===== *)
theory S3Store
  imports S3Client
begin

text \<open>
  What the bucket operations of pkg/s3/client.go do to the endpoint. The abstract state of an
  endpoint is a map from bucket names to the keys they hold (\<open>buckets\<close>); \<open>s3_contract\<close> is the
  documented behaviour of each request over a view of the endpoint's state as such a map. The
  locale \<open>bucket_service\<close> is the interface the controller relies on; it is interpreted here on
  the operations of the client.
\<close>

type_synonym buckets = "string \<Rightarrow> string set option"

text \<open>Only keys of \<open>D\<close> in bucket \<open>b\<close> can disappear between two states; all else is as it was.\<close>

definition shrinks :: "buckets \<Rightarrow> buckets \<Rightarrow> string \<Rightarrow> string set \<Rightarrow> bool" where
  "shrinks m m' b D \<longleftrightarrow>
     (\<forall>c. c \<noteq> b \<longrightarrow> m' c = m c) \<and>
     (case m b of None \<Rightarrow> m' b = None
      | Some K \<Rightarrow> (\<exists>K'. m' b = Some K' \<and> K - D \<subseteq> K' \<and> K' \<subseteq> K))"

lemma shrinks_refl [simp]: "shrinks m m b D"
  by (auto simp: shrinks_def split: option.split)

lemma shrinks_trans: "shrinks m m' b D \<Longrightarrow> shrinks m' m'' b D \<Longrightarrow> shrinks m m'' b D"
proof (cases "m b")
  case (Some K)
  assume 1: "shrinks m m' b D" and 2: "shrinks m' m'' b D"
  from 1 Some obtain K' where K': "m' b = Some K'" "K - D \<subseteq> K'" "K' \<subseteq> K" by (auto simp: shrinks_def)
  from 2 K'(1) obtain K'' where K'': "m'' b = Some K''" "K' - D \<subseteq> K''" "K'' \<subseteq> K'"
    by (auto simp: shrinks_def)
  from K'(2,3) K''(2,3) have "K - D \<subseteq> K''" "K'' \<subseteq> K" by blast+
  with 1 2 Some K''(1) show ?thesis by (simp add: shrinks_def)
qed (auto simp: shrinks_def)

lemma shrinks_mono: "shrinks m m' b D \<Longrightarrow> D \<subseteq> E \<Longrightarrow> shrinks m m' b E"
  by (auto simp: shrinks_def split: option.splits)

lemma shrinks_other: "shrinks m m' b D \<Longrightarrow> c \<noteq> b \<Longrightarrow> m' c = m c"
  by (simp add: shrinks_def)

definition with_prefix :: "string \<Rightarrow> string set" where
  "with_prefix p = {k. prefix p k}"

lemma with_prefix_iff [simp]: "k \<in> with_prefix p \<longleftrightarrow> prefix p k"
  by (simp add: with_prefix_def)

lemma with_prefix_Nil [simp]: "with_prefix [] = UNIV"
  by (auto simp: with_prefix_def)

definition drop_keys :: "string set \<Rightarrow> buckets \<Rightarrow> string \<Rightarrow> buckets" where
  "drop_keys D m b = m(b := map_option (\<lambda>K. K - D) (m b))"

lemma drop_keys_eqI: "shrinks m m' b D \<Longrightarrow> (\<And>K. m' b = Some K \<Longrightarrow> K \<inter> D = {}) \<Longrightarrow> m' = drop_keys D m b"
  by (rule ext) (auto simp: shrinks_def drop_keys_def split: option.splits)

section \<open>The documented requests\<close>

definition exists_doc :: "'s minio \<Rightarrow> ('s \<Rightarrow> buckets) \<Rightarrow> bool" where
  "exists_doc mc view \<longleftrightarrow>
     (\<forall>c b s. view (exec (mc_BucketExists mc c b) s) = view s \<and>
        (\<forall>e. val_of (mc_BucketExists mc c b) s = Inr e \<longrightarrow> e = (view s b \<noteq> None)))"

definition make_doc :: "'s minio \<Rightarrow> ('s \<Rightarrow> buckets) \<Rightarrow> bool" where
  "make_doc mc view \<longleftrightarrow>
     (\<forall>c b r s. if val_of (mc_MakeBucket mc c b r) s = None
        then view s b = None \<and> view (exec (mc_MakeBucket mc c b r) s) = (view s)(b := Some {})
        else view (exec (mc_MakeBucket mc c b r) s) = view s)"

definition put_doc :: "'s minio \<Rightarrow> ('s \<Rightarrow> buckets) \<Rightarrow> bool" where
  "put_doc mc view \<longleftrightarrow>
     (\<forall>c b k v s. if val_of (mc_PutObject mc c b k v) s = None
        then view s b \<noteq> None \<and> view (exec (mc_PutObject mc c b k v) s) = (view s)(b := map_option (insert k) (view s b))
        else view (exec (mc_PutObject mc c b k v) s) = view s)"

definition remove_doc :: "'s minio \<Rightarrow> ('s \<Rightarrow> buckets) \<Rightarrow> bool" where
  "remove_doc mc view \<longleftrightarrow>
     (\<forall>c b k ver s. shrinks (view s) (view (exec (mc_RemoveObject mc c b k ver) s)) b {k} \<and>
        (val_of (mc_RemoveObject mc c b k ver) s = None \<longrightarrow>
          (\<forall>K. view (exec (mc_RemoveObject mc c b k ver) s) b = Some K \<longrightarrow> k \<notin> K)))"

definition rmbucket_doc :: "'s minio \<Rightarrow> ('s \<Rightarrow> buckets) \<Rightarrow> bool" where
  "rmbucket_doc mc view \<longleftrightarrow>
     (\<forall>c b s. if val_of (mc_RemoveBucket mc c b) s = None
        then view s b = Some {} \<and> view (exec (mc_RemoveBucket mc c b) s) = (view s)(b := None)
        else view (exec (mc_RemoveBucket mc c b) s) = view s)"

definition list_doc :: "'s minio \<Rightarrow> ('s \<Rightarrow> buckets) \<Rightarrow> bool" where
  "list_doc mc view \<longleftrightarrow>
     (\<forall>c b p s. view (exec (mc_ListObjects mc c b p) s) = view s \<and>
        Key ` set (fst (val_of (mc_ListObjects mc c b p) s)) \<subseteq> with_prefix p \<and>
        (snd (val_of (mc_ListObjects mc c b p) s) = None \<longrightarrow>
          (\<forall>K. view s b = Some K \<longrightarrow> K \<inter> with_prefix p \<subseteq> Key ` set (fst (val_of (mc_ListObjects mc c b p) s)))))"

definition removes_doc :: "'s minio \<Rightarrow> ('s \<Rightarrow> buckets) \<Rightarrow> bool" where
  "removes_doc mc view \<longleftrightarrow>
     (\<forall>c b objs s. shrinks (view s) (view (exec (mc_RemoveObjects mc c b objs) s)) b (Key ` set objs) \<and>
        (val_of (mc_RemoveObjects mc c b objs) s = [] \<longrightarrow>
          (\<forall>K. view (exec (mc_RemoveObjects mc c b objs) s) b = Some K \<longrightarrow> K \<inter> Key ` set objs = {})))"

definition rt_doc :: "'s minio \<Rightarrow> ('s \<Rightarrow> buckets) \<Rightarrow> bool" where
  "rt_doc mc view \<longleftrightarrow>
     (\<forall>s. view (exec (rt_listErrSeen mc) s) = view s) \<and>
     (\<forall>objs s. view (exec (rt_goOrder mc objs) s) = view s \<and> set (val_of (rt_goOrder mc objs) s) = set objs)"

definition s3_contract :: "'s minio \<Rightarrow> ('s \<Rightarrow> buckets) \<Rightarrow> bool" where
  "s3_contract mc view \<longleftrightarrow>
     exists_doc mc view \<and> make_doc mc view \<and> put_doc mc view \<and> remove_doc mc view \<and>
     rmbucket_doc mc view \<and> list_doc mc view \<and> removes_doc mc view \<and> rt_doc mc view"

text \<open>Listings that never fail: the hypothesis of what the removals achieve (not of what they spare).\<close>

definition listings_complete :: "'s minio \<Rightarrow> bool" where
  "listings_complete mc \<longleftrightarrow> (\<forall>c b p s. snd (val_of (mc_ListObjects mc c b p) s) = None)"

lemma contract_docs:
  assumes "s3_contract mc view"
  shows "exists_doc mc view" "make_doc mc view" "put_doc mc view" "remove_doc mc view"
    "rmbucket_doc mc view" "list_doc mc view" "removes_doc mc view" "rt_doc mc view"
  using assms unfolding s3_contract_def by simp_all

lemma contract_exists:
  assumes "s3_contract mc view"
  shows "view (exec (mc_BucketExists mc c b) s) = view s"
    and "val_of (mc_BucketExists mc c b) s = Inr e \<Longrightarrow> e = (view s b \<noteq> None)"
  using contract_docs(1)[OF assms] unfolding exists_doc_def by simp_all

lemma contract_make:
  assumes "s3_contract mc view"
  shows "view (exec (mc_MakeBucket mc c b r) s) =
    (if val_of (mc_MakeBucket mc c b r) s = None then (view s)(b := Some {}) else view s)"
    and "val_of (mc_MakeBucket mc c b r) s = None \<Longrightarrow> view s b = None"
  using contract_docs(2)[OF assms] unfolding make_doc_def by presburger+

lemma contract_put:
  assumes "s3_contract mc view"
  shows "view (exec (mc_PutObject mc c b k v) s) =
    (if val_of (mc_PutObject mc c b k v) s = None then (view s)(b := map_option (insert k) (view s b)) else view s)"
    and "val_of (mc_PutObject mc c b k v) s = None \<Longrightarrow> view s b \<noteq> None"
  using contract_docs(3)[OF assms] unfolding put_doc_def by presburger+

lemma contract_remove:
  assumes "s3_contract mc view"
  shows "shrinks (view s) (view (exec (mc_RemoveObject mc c b k ver) s)) b {k}"
    and "val_of (mc_RemoveObject mc c b k ver) s = None \<Longrightarrow>
      view (exec (mc_RemoveObject mc c b k ver) s) b = Some K \<Longrightarrow> k \<notin> K"
  using contract_docs(4)[OF assms] unfolding remove_doc_def by simp_all

lemma contract_rmbucket:
  assumes "s3_contract mc view"
  shows "view (exec (mc_RemoveBucket mc c b) s) =
    (if val_of (mc_RemoveBucket mc c b) s = None then (view s)(b := None) else view s)"
    and "val_of (mc_RemoveBucket mc c b) s = None \<Longrightarrow> view s b = Some {}"
  using contract_docs(5)[OF assms] unfolding rmbucket_doc_def by presburger+

lemma contract_list:
  assumes "s3_contract mc view"
  shows "view (exec (mc_ListObjects mc c b p) s) = view s"
    and "Key ` set (fst (val_of (mc_ListObjects mc c b p) s)) \<subseteq> with_prefix p"
    and "snd (val_of (mc_ListObjects mc c b p) s) = None \<Longrightarrow> view s b = Some K \<Longrightarrow>
      K \<inter> with_prefix p \<subseteq> Key ` set (fst (val_of (mc_ListObjects mc c b p) s))"
  using contract_docs(6)[OF assms] unfolding list_doc_def by simp_all

lemma contract_removes:
  assumes "s3_contract mc view"
  shows "shrinks (view s) (view (exec (mc_RemoveObjects mc c b objs) s)) b (Key ` set objs)"
    and "val_of (mc_RemoveObjects mc c b objs) s = [] \<Longrightarrow>
      view (exec (mc_RemoveObjects mc c b objs) s) b = Some K \<Longrightarrow> K \<inter> Key ` set objs = {}"
  using contract_docs(7)[OF assms] unfolding removes_doc_def by simp_all

lemma contract_rt:
  assumes "s3_contract mc view"
  shows "view (exec (rt_listErrSeen mc) s) = view s"
    and "view (exec (rt_goOrder mc objs) s) = view s"
    and "set (val_of (rt_goOrder mc objs) s) = set objs"
  using contract_docs(8)[OF assms] unfolding rt_doc_def by simp_all

lemmas contract_views = contract_exists(1) contract_list(1) contract_rt(1,2)

section \<open>Removing the objects under a prefix\<close>

text \<open>The state in which a removal has its listing, and the listing.\<close>

definition listed :: "'s minio \<Rightarrow> s3Client \<Rightarrow> string \<Rightarrow> string \<Rightarrow> 's \<Rightarrow> obj list \<times> err option" where
  "listed mc c b p s = val_of (mc_ListObjects mc c b p) s"

definition after_listing :: "'s minio \<Rightarrow> s3Client \<Rightarrow> string \<Rightarrow> string \<Rightarrow> 's \<Rightarrow> 's" where
  "after_listing mc c b p s = exec (rt_listErrSeen mc) (exec (mc_ListObjects mc c b p) s)"

lemma view_after_listing: "s3_contract mc view \<Longrightarrow> view (after_listing mc c b p s) = view s"
  by (simp add: after_listing_def contract_views)

lemma listed_prefix: "s3_contract mc view \<Longrightarrow> Key ` set (fst (listed mc c b p s)) \<subseteq> with_prefix p"
  unfolding listed_def by (rule contract_list(2))

lemma listed_all:
  assumes "s3_contract mc view" "listings_complete mc" "view s b = Some K"
  shows "K \<inter> with_prefix p \<subseteq> Key ` set (fst (listed mc c b p s))"
  using assms contract_list(3)[OF assms(1)] unfolding listed_def listings_complete_def by metis

lemma removeObjects_run:
  obtains (listErr) "exec (removeObjects mc c b p) s = after_listing mc c b p s"
      "val_of (removeObjects mc c b p) s = snd (listed mc c b p s)" "snd (listed mc c b p s) \<noteq> None"
  | (removed) "exec (removeObjects mc c b p) s =
        exec (mc_RemoveObjects mc c b (fst (listed mc c b p s))) (after_listing mc c b p s)"
      "val_of (removeObjects mc c b p) s = None \<longleftrightarrow>
        val_of (mc_RemoveObjects mc c b (fst (listed mc c b p s))) (after_listing mc c b p s) = []"
proof (cases "val_of (rt_listErrSeen mc) (exec (mc_ListObjects mc c b p) s) \<and>
       fst (listed mc c b p s) = [] \<and> snd (listed mc c b p s) \<noteq> None")
  case True
  then show thesis by (intro listErr) (simp_all add: removeObjects_def listed_def after_listing_def)
next
  case False
  then show thesis by (intro removed) (auto simp: removeObjects_def listed_def after_listing_def)
qed

lemma removeObjects_spares:
  assumes "s3_contract mc view"
  shows "shrinks (view s) (view (exec (removeObjects mc c b p) s)) b (with_prefix p)"
proof (cases rule: removeObjects_run[of mc c b p s])
  case removed
  have "shrinks (view (after_listing mc c b p s)) (view (exec (removeObjects mc c b p) s)) b (with_prefix p)"
    unfolding removed(1) by (rule shrinks_mono[OF contract_removes(1)[OF assms] listed_prefix[OF assms]])
  then show ?thesis by (simp add: view_after_listing[OF assms])
qed (simp add: view_after_listing[OF assms])

text \<open>A key set that shrank from another is part of it.\<close>

lemma shrinks_Some:
  assumes "shrinks m m' b D" "m' b = Some K"
  obtains K0 where "m b = Some K0" "K \<subseteq> K0" "K0 - D \<subseteq> K"
  using assms by (auto simp: shrinks_def split: option.splits)

lemma removeObjects_clears:
  assumes "s3_contract mc view" "listings_complete mc"
    and "val_of (removeObjects mc c b p) s = None"
    and "view (exec (removeObjects mc c b p) s) b = Some K"
  shows "K \<inter> with_prefix p = {}"
proof (cases rule: removeObjects_run[of mc c b p s])
  case listErr
  with assms(3) show ?thesis by simp
next
  case removed
  let ?s1 = "after_listing mc c b p s"
  from assms(4) removed(1) obtain K0 where "view ?s1 b = Some K0" and sub: "K \<subseteq> K0"
    using contract_removes(1)[OF assms(1), of ?s1 c b "fst (listed mc c b p s)"]
    by (metis shrinks_Some)
  then have "K0 \<inter> with_prefix p \<subseteq> Key ` set (fst (listed mc c b p s))"
    using listed_all[OF assms(1,2), of s b K0 p c] by (simp add: view_after_listing[OF assms(1)])
  moreover have "K \<inter> Key ` set (fst (listed mc c b p s)) = {}"
    using contract_removes(2)[OF assms(1)] removed assms(3,4) by metis
  ultimately show ?thesis using sub by blast
qed

lemma removeOne_step:
  assumes "s3_contract mc view"
  shows "shrinks (view s) (view (exec (removeOne mc c b ob) s)) b {Key ob}"
    and "val_of (removeOne mc c b ob) s = None \<Longrightarrow>
      view (exec (removeOne mc c b ob) s) b = Some K \<Longrightarrow> Key ob \<notin> K"
  using contract_remove[OF assms] by (simp_all add: removeOne_def split: option.splits)

lemma removeOne_loop_spares:
  assumes "s3_contract mc view"
  shows "shrinks (view s) (view (exec (collect_m (removeOne mc c b) objs) s)) b (Key ` set objs)"
proof (induction objs arbitrary: s)
  case (Cons ob objs)
  let ?s1 = "exec (removeOne mc c b ob) s" and ?D = "Key ` set (ob # objs)"
  have "shrinks (view s) (view ?s1) b ?D"
    using removeOne_step(1)[OF assms] by (rule shrinks_mono) simp
  moreover have "shrinks (view ?s1) (view (exec (collect_m (removeOne mc c b) objs) ?s1)) b ?D"
    using Cons.IH by (rule shrinks_mono) auto
  ultimately have "shrinks (view s) (view (exec (collect_m (removeOne mc c b) objs) ?s1)) b ?D"
    by (rule shrinks_trans)
  then show ?case by simp
qed simp

lemma removeOne_loop_clears:
  assumes "s3_contract mc view"
  shows "val_of (collect_m (removeOne mc c b) objs) s = [] \<Longrightarrow>
      view (exec (collect_m (removeOne mc c b) objs) s) b = Some K \<Longrightarrow> K \<inter> Key ` set objs = {}"
proof (induction objs arbitrary: s)
  case (Cons ob objs)
  let ?s1 = "exec (removeOne mc c b ob) s"
  from Cons.prems(1) have ok: "val_of (removeOne mc c b ob) s = None"
    and rest: "val_of (collect_m (removeOne mc c b) objs) ?s1 = []" by (auto split: option.splits)
  from Cons.prems(2) have K: "view (exec (collect_m (removeOne mc c b) objs) ?s1) b = Some K" by simp
  from shrinks_Some[OF removeOne_loop_spares[OF assms] K]
  obtain K1 where "view ?s1 b = Some K1" "K \<subseteq> K1" by metis
  with removeOne_step(2)[OF assms ok] Cons.IH[OF rest K] show ?case by auto
qed simp

lemma removeOneByOne_run:
  fixes mc :: "'s minio"
  obtains (listErr) "exec (removeObjectsOneByOne mc c b p) s = after_listing mc c b p s"
      "val_of (removeObjectsOneByOne mc c b p) s = snd (listed mc c b p s)" "snd (listed mc c b p s) \<noteq> None"
  | (removed) s1 objs where "s1 = exec (rt_goOrder mc (fst (listed mc c b p s))) (after_listing mc c b p s)"
      "objs = val_of (rt_goOrder mc (fst (listed mc c b p s))) (after_listing mc c b p s)"
      "exec (removeObjectsOneByOne mc c b p) s = exec (collect_m (removeOne mc c b) objs) s1"
      "val_of (removeObjectsOneByOne mc c b p) s = None \<longleftrightarrow> val_of (collect_m (removeOne mc c b) objs) s1 = []"
proof (cases "val_of (rt_listErrSeen mc) (exec (mc_ListObjects mc c b p) s) \<and>
       length (fst (listed mc c b p s)) \<le> parallelism \<and> snd (listed mc c b p s) \<noteq> None")
  case True
  then show thesis by (intro listErr) (simp_all add: removeObjectsOneByOne_def listed_def after_listing_def)
next
  case False
  then show thesis
    by (intro removed[OF refl refl]) (auto simp: removeObjectsOneByOne_def listed_def after_listing_def)
qed

lemma removeOneByOne_spares:
  assumes "s3_contract mc view"
  shows "shrinks (view s) (view (exec (removeObjectsOneByOne mc c b p) s)) b (with_prefix p)"
proof (cases rule: removeOneByOne_run[of mc c b p s])
  case (removed s1 objs)
  have "Key ` set objs \<subseteq> with_prefix p"
    using listed_prefix[OF assms] by (simp add: removed(2) contract_rt(3)[OF assms])
  then have "shrinks (view s1) (view (exec (removeObjectsOneByOne mc c b p) s)) b (with_prefix p)"
    unfolding removed(3) by (rule shrinks_mono[OF removeOne_loop_spares[OF assms]])
  then show ?thesis by (simp add: removed(1) contract_rt(2)[OF assms] view_after_listing[OF assms])
qed (simp add: view_after_listing[OF assms])

lemma removeOneByOne_clears:
  assumes "s3_contract mc view" "listings_complete mc"
    and "val_of (removeObjectsOneByOne mc c b p) s = None"
    and "view (exec (removeObjectsOneByOne mc c b p) s) b = Some K"
  shows "K \<inter> with_prefix p = {}"
proof (cases rule: removeOneByOne_run[of mc c b p s])
  case listErr
  with assms(3) show ?thesis by simp
next
  case (removed s1 objs)
  from assms(4)[unfolded removed(3)] obtain K0 where "view s1 b = Some K0" and sub: "K \<subseteq> K0"
    using removeOne_loop_spares[OF assms(1)] by (metis shrinks_Some)
  then have "K0 \<inter> with_prefix p \<subseteq> Key ` set objs"
    using listed_all[OF assms(1,2), of s b K0 p c]
    by (simp add: removed(1,2) contract_rt(2,3)[OF assms(1)] view_after_listing[OF assms(1)])
  moreover have "K \<inter> Key ` set objs = {}"
    using removeOne_loop_clears[OF assms(1)] removed(3,4) assms(3,4) by metis
  ultimately show ?thesis using sub by blast
qed

section \<open>The interface of the bucket operations\<close>

text \<open>
  What the controller may rely on: which keys an operation can take away, which it has taken
  away when it reports success, and what creating leaves behind.
\<close>

locale bucket_service =
  fixes exists_op :: "'s minio \<Rightarrow> s3Client \<Rightarrow> string \<Rightarrow> ('s, err + bool) state"
    and create_op :: "'s minio \<Rightarrow> s3Client \<Rightarrow> string \<Rightarrow> ('s, err option) state"
    and mkprefix_op :: "'s minio \<Rightarrow> s3Client \<Rightarrow> string \<Rightarrow> string \<Rightarrow> ('s, err option) state"
    and rmprefix_op :: "'s minio \<Rightarrow> s3Client \<Rightarrow> string \<Rightarrow> string \<Rightarrow> ('s, err option) state"
    and rmbucket_op :: "'s minio \<Rightarrow> s3Client \<Rightarrow> string \<Rightarrow> ('s, err option) state"
  assumes exists_view: "s3_contract mc view \<Longrightarrow> view (exec (exists_op mc c b) s) = view s"
    and exists_true: "s3_contract mc view \<Longrightarrow> val_of (exists_op mc c b) s = Inr e \<Longrightarrow> e = (view s b \<noteq> None)"
    and create_view: "s3_contract mc view \<Longrightarrow> view (exec (create_op mc c b) s) =
      (if val_of (create_op mc c b) s = None then (view s)(b := Some {}) else view s)"
    and create_fresh: "s3_contract mc view \<Longrightarrow> val_of (create_op mc c b) s = None \<Longrightarrow> view s b = None"
    and mkprefix_view: "s3_contract mc view \<Longrightarrow> p \<noteq> '''' \<Longrightarrow> val_of (mkprefix_op mc c b p) s = None \<Longrightarrow>
      view (exec (mkprefix_op mc c b p) s) = (view s)(b := map_option (insert (p @ ''/'')) (view s b))"
    and mkprefix_fail: "s3_contract mc view \<Longrightarrow> p = '''' \<or> val_of (mkprefix_op mc c b p) s \<noteq> None \<Longrightarrow>
      view (exec (mkprefix_op mc c b p) s) = view s"
    and rmprefix_spares: "s3_contract mc view \<Longrightarrow>
      shrinks (view s) (view (exec (rmprefix_op mc c b p) s)) b (with_prefix p)"
    and rmprefix_clears: "s3_contract mc view \<Longrightarrow> listings_complete mc \<Longrightarrow>
      val_of (rmprefix_op mc c b p) s = None \<Longrightarrow> view (exec (rmprefix_op mc c b p) s) b = Some K \<Longrightarrow>
      K \<inter> with_prefix p = {}"
    and rmbucket_gone: "s3_contract mc view \<Longrightarrow> val_of (rmbucket_op mc c b) s = None \<Longrightarrow>
      view (exec (rmbucket_op mc c b) s) = (view s)(b := None)"
    and rmbucket_spares: "s3_contract mc view \<Longrightarrow> val_of (rmbucket_op mc c b) s \<noteq> None \<Longrightarrow>
      shrinks (view s) (view (exec (rmbucket_op mc c b) s)) b UNIV"
begin

text \<open>A successful prefix removal leaves exactly the keys outside the prefix.\<close>

lemma rmprefix_exact:
  assumes "s3_contract mc view" "listings_complete mc" "val_of (rmprefix_op mc c b p) s = None"
  shows "view (exec (rmprefix_op mc c b p) s) = drop_keys (with_prefix p) (view s) b"
  using rmprefix_spares[OF assms(1)] rmprefix_clears[OF assms] by (rule drop_keys_eqI)

text \<open>Removing one bucket or prefix never reaches into another bucket.\<close>

lemma rmprefix_other: "s3_contract mc view \<Longrightarrow> b' \<noteq> b \<Longrightarrow> view (exec (rmprefix_op mc c b p) s) b' = view s b'"
  by (rule shrinks_other[OF rmprefix_spares])

lemma rmbucket_other: "s3_contract mc view \<Longrightarrow> b' \<noteq> b \<Longrightarrow> view (exec (rmbucket_op mc c b) s) b' = view s b'"
  by (cases "val_of (rmbucket_op mc c b) s = None") (auto simp: rmbucket_gone intro: shrinks_other[OF rmbucket_spares])

text \<open>Preparing a bucket and a prefix: nothing that was there is lost.\<close>

lemma mkprefix_grows:
  assumes "s3_contract mc view" "view s b = Some K"
  shows "\<exists>K'. view (exec (mkprefix_op mc c b p) s) b = Some K' \<and> K \<subseteq> K'"
  using mkprefix_view[OF assms(1), of p c b s] mkprefix_fail[OF assms(1), of p c b s] assms(2)
  by (cases "p = '''' \<or> val_of (mkprefix_op mc c b p) s \<noteq> None") auto

end

lemma RemovePrefix_cases:
  obtains (first) s1 where "s1 = exec (removeObjects mc c b p) s"
      "val_of (removeObjects mc c b p) s = None"
      "exec (RemovePrefix mc c b p) s = exec (mc_RemoveObject mc c b p '''') s1"
  | (second) s1 where "s1 = exec (removeObjectsOneByOne mc c b p) (exec (removeObjects mc c b p) s)"
      "val_of (removeObjectsOneByOne mc c b p) (exec (removeObjects mc c b p) s) = None"
      "exec (RemovePrefix mc c b p) s = exec (mc_RemoveObject mc c b p '''') s1"
  | (failed) "exec (RemovePrefix mc c b p) s = exec (removeObjectsOneByOne mc c b p) (exec (removeObjects mc c b p) s)"
      "val_of (RemovePrefix mc c b p) s \<noteq> None"
  by (cases "val_of (removeObjects mc c b p) s = None";
      cases "val_of (removeObjectsOneByOne mc c b p) (exec (removeObjects mc c b p) s) = None")
    (auto simp: RemovePrefix_def)

lemma RemovePrefix_spares:
  assumes "s3_contract mc view"
  shows "shrinks (view s) (view (exec (RemovePrefix mc c b p) s)) b (with_prefix p)"
proof -
  let ?s1 = "exec (removeObjects mc c b p) s"
  note first = removeObjects_spares[OF assms, of s c b p]
  note both = shrinks_trans[OF first removeOneByOne_spares[OF assms, of ?s1 c b p]]
  have last: "shrinks (view t) (view (exec (mc_RemoveObject mc c b p '''') t)) b (with_prefix p)" for t
    by (rule shrinks_mono[OF contract_remove(1)[OF assms]]) simp
  show ?thesis
    by (cases rule: RemovePrefix_cases[of mc c b p s])
      (auto intro: shrinks_trans[OF first last] shrinks_trans[OF both last] both)
qed

lemma RemovePrefix_clears:
  assumes "s3_contract mc view" "listings_complete mc" "val_of (RemovePrefix mc c b p) s = None"
    and "view (exec (RemovePrefix mc c b p) s) b = Some K"
  shows "K \<inter> with_prefix p = {}"
proof -
  have last: "K \<inter> with_prefix p = {}"
    if clear: "\<And>K'. view t b = Some K' \<Longrightarrow> K' \<inter> with_prefix p = {}"
      and left: "view (exec (mc_RemoveObject mc c b p '''') t) b = Some K" for t
  proof -
    obtain K0 where "view t b = Some K0" "K \<subseteq> K0"
      using shrinks_Some[OF contract_remove(1)[OF assms(1)] left] by metis
    with clear show ?thesis by blast
  qed
  show ?thesis
  proof (cases rule: RemovePrefix_cases[of mc c b p s])
    case (first s1)
    show ?thesis
      by (rule last[of s1]) (use removeObjects_clears[OF assms(1,2) first(2)] first(1,3) assms(4) in auto)
  next
    case (second s1)
    show ?thesis
      by (rule last[of s1]) (use removeOneByOne_clears[OF assms(1,2) second(2)] second(1,3) assms(4) in auto)
  next
    case failed
    with assms(3) show ?thesis by simp
  qed
qed

lemma RemoveBucket_cases:
  assumes "s3_contract mc view"
  obtains (removed) s1 where "shrinks (view s) (view s1) b UNIV"
      "exec (RemoveBucket mc c b) s = exec (mc_RemoveBucket mc c b) s1"
      "val_of (RemoveBucket mc c b) s = val_of (mc_RemoveBucket mc c b) s1"
  | (failed) "shrinks (view s) (view (exec (RemoveBucket mc c b) s)) b UNIV" "val_of (RemoveBucket mc c b) s \<noteq> None"
proof -
  let ?s1 = "exec (removeObjects mc c b '''') s"
  let ?s2 = "exec (removeObjectsOneByOne mc c b '''') ?s1"
  have first: "shrinks (view s) (view ?s1) b UNIV"
    using removeObjects_spares[OF assms, of s c b "''''"] by simp
  have both: "shrinks (view s) (view ?s2) b UNIV"
    using shrinks_trans[OF first] removeOneByOne_spares[OF assms, of ?s1 c b "''''"] by simp
  consider "val_of (removeObjects mc c b '''') s = None"
    | "val_of (removeObjects mc c b '''') s \<noteq> None" "val_of (removeObjectsOneByOne mc c b '''') ?s1 = None"
    | "val_of (removeObjects mc c b '''') s \<noteq> None" "val_of (removeObjectsOneByOne mc c b '''') ?s1 \<noteq> None"
    by blast
  then show thesis
  proof cases
    case 1
    then show ?thesis by (intro removed[OF first]) (auto simp: RemoveBucket_def)
  next
    case 2
    then show ?thesis by (intro removed[OF both]) (auto simp: RemoveBucket_def)
  next
    case 3
    with both show ?thesis by (intro failed) (auto simp: RemoveBucket_def)
  qed
qed

lemma RemoveBucket_gone:
  assumes "s3_contract mc view" "val_of (RemoveBucket mc c b) s = None"
  shows "view (exec (RemoveBucket mc c b) s) = (view s)(b := None)"
  using assms(1)
proof (cases rule: RemoveBucket_cases[where s = s and b = b and c = c])
  case (removed s1)
  then have "view (exec (RemoveBucket mc c b) s) = (view s1)(b := None)"
    using assms(2) contract_rmbucket(1)[OF assms(1), of c b s1] by simp
  also have "\<dots> = (view s)(b := None)" using shrinks_other[OF removed(1)] by auto
  finally show ?thesis .
qed (use assms(2) in simp)

lemma RemoveBucket_spares:
  assumes "s3_contract mc view" "val_of (RemoveBucket mc c b) s \<noteq> None"
  shows "shrinks (view s) (view (exec (RemoveBucket mc c b) s)) b UNIV"
  using assms(1)
proof (cases rule: RemoveBucket_cases[where s = s and b = b and c = c])
  case (removed s1)
  then show ?thesis using assms(2) contract_rmbucket(1)[OF assms(1), of c b s1] by auto
qed

interpretation s3: bucket_service BucketExists CreateBucket CreatePrefix RemovePrefix RemoveBucket
proof
  fix mc :: "'s minio" and view c b p s
  assume ok: "s3_contract mc view"
  show "view (exec (BucketExists mc c b) s) = view s"
    by (simp add: BucketExists_def contract_exists(1)[OF ok])
  show "e = (view s b \<noteq> None)" if "val_of (BucketExists mc c b) s = Inr e" for e
    using that contract_exists(2)[OF ok] by (simp add: BucketExists_def)
  show "view (exec (CreateBucket mc c b) s) =
      (if val_of (CreateBucket mc c b) s = None then (view s)(b := Some {}) else view s)"
    by (simp add: CreateBucket_def contract_make(1)[OF ok])
  show "view s b = None" if "val_of (CreateBucket mc c b) s = None"
    using that contract_make(2)[OF ok] by (simp add: CreateBucket_def)
  show "view (exec (CreatePrefix mc c b p) s) = (view s)(b := map_option (insert (p @ ''/'')) (view s b))"
    if "p \<noteq> ''''" "val_of (CreatePrefix mc c b p) s = None"
    using that by (simp add: CreatePrefix_def contract_put(1)[OF ok])
  show "view (exec (CreatePrefix mc c b p) s) = view s"
    if "p = '''' \<or> val_of (CreatePrefix mc c b p) s \<noteq> None"
    using that by (auto simp: CreatePrefix_def contract_put(1)[OF ok])
  show "shrinks (view s) (view (exec (RemovePrefix mc c b p) s)) b (with_prefix p)"
    by (rule RemovePrefix_spares[OF ok])
  show "K \<inter> with_prefix p = {}" if "listings_complete mc" "val_of (RemovePrefix mc c b p) s = None"
    "view (exec (RemovePrefix mc c b p) s) b = Some K" for K
    by (rule RemovePrefix_clears[OF ok that])
  show "view (exec (RemoveBucket mc c b) s) = (view s)(b := None)" if "val_of (RemoveBucket mc c b) s = None"
    by (rule RemoveBucket_gone[OF ok that])
  show "shrinks (view s) (view (exec (RemoveBucket mc c b) s)) b UNIV" if "val_of (RemoveBucket mc c b) s \<noteq> None"
    by (rule RemoveBucket_spares[OF ok that])
qed

section \<open>A store in memory\<close>

text \<open>An endpoint that keeps its keys in lists: it satisfies the contract, so witnesses run on it.\<close>

type_synonym mem = "string \<Rightarrow> string list option"

definition mem_view :: "mem \<Rightarrow> buckets" where
  "mem_view s = (\<lambda>b. map_option set (s b))"

definition mem_minio :: "mem minio" where
  "mem_minio =
     \<lparr>mc_BucketExists = \<lambda>c b. State (\<lambda>s. (Inr (s b \<noteq> None), s)),
      mc_MakeBucket = \<lambda>c b r. State (\<lambda>s. case s b of None \<Rightarrow> (None, s(b := Some []))
         | Some _ \<Rightarrow> (Some (Errorf ''BucketAlreadyOwnedByYou''), s)),
      mc_PutObject = \<lambda>c b k v. State (\<lambda>s. case s b of None \<Rightarrow> (Some (Errorf ''NoSuchBucket''), s)
         | Some ks \<Rightarrow> (None, s(b := Some (k # ks)))),
      mc_RemoveObject = \<lambda>c b k ver. State (\<lambda>s. case s b of None \<Rightarrow> (Some (Errorf ''NoSuchBucket''), s)
         | Some ks \<Rightarrow> (None, s(b := Some (filter (\<lambda>x. x \<noteq> k) ks)))),
      mc_RemoveBucket = \<lambda>c b. State (\<lambda>s. case s b of None \<Rightarrow> (Some (Errorf ''The specified bucket does not exist''), s)
         | Some ks \<Rightarrow> if ks = [] then (None, s(b := None)) else (Some (Errorf ''BucketNotEmpty''), s)),
      mc_ListObjects = \<lambda>c b p. State (\<lambda>s. case s b of None \<Rightarrow> (([], None), s)
         | Some ks \<Rightarrow> ((map (\<lambda>k. \<lparr>Key = k, VersionID = ''''\<rparr>) (filter (prefix p) ks), None), s)),
      mc_RemoveObjects = \<lambda>c b os. State (\<lambda>s. case s b of None \<Rightarrow> ([], s)
         | Some ks \<Rightarrow> ([], s(b := Some (filter (\<lambda>x. x \<notin> Key ` set os) ks)))),
      rt_listErrSeen = State_Monad.return False,
      rt_goOrder = State_Monad.return\<rparr>"

lemma mem_contract: "s3_contract mem_minio mem_view"
  unfolding s3_contract_def exists_doc_def make_doc_def put_doc_def remove_doc_def rmbucket_doc_def
    list_doc_def removes_doc_def rt_doc_def mem_minio_def
  by (auto simp: mem_view_def shrinks_def fun_eq_iff image_image split: option.splits if_splits)

lemma mem_listings: "listings_complete mem_minio"
  by (auto simp: listings_complete_def mem_minio_def split: option.split)

text \<open>Its requests one by one, so that a run of the client on it is evaluated by rewriting.\<close>

lemma mem_ops:
  "val_of (mc_BucketExists mem_minio c b) s = Inr (s b \<noteq> None)"
  "exec (mc_BucketExists mem_minio c b) s = s"
  "s b = None \<Longrightarrow> val_of (mc_MakeBucket mem_minio c b r) s = None"
  "s b = None \<Longrightarrow> exec (mc_MakeBucket mem_minio c b r) s = s(b \<mapsto> [])"
  "s b = Some ks \<Longrightarrow> val_of (mc_ListObjects mem_minio c b p) s =
     (map (\<lambda>k. \<lparr>Key = k, VersionID = ''''\<rparr>) (filter (prefix p) ks), None)"
  "s b = Some ks \<Longrightarrow> exec (mc_ListObjects mem_minio c b p) s = s"
  "val_of (mc_RemoveObjects mem_minio c b os) s = []"
  "s b = Some ks \<Longrightarrow> exec (mc_RemoveObjects mem_minio c b os) s = s(b \<mapsto> filter (\<lambda>x. x \<notin> Key ` set os) ks)"
  "s b = Some [] \<Longrightarrow> val_of (mc_RemoveBucket mem_minio c b) s = None"
  "val_of (rt_listErrSeen mem_minio) s = False"
  "exec (rt_listErrSeen mem_minio) s = s"
  by (simp_all add: mem_minio_def split: option.split)

end
