(* ===== verification/Controller.thy ===== *)
theory Controller
  imports Csi Cosi VolumeId S3Store MountOptions
begin

text \<open>
  The controller service (pkg/driver/controllerserver.go): creating and deleting volumes on the
  endpoint and validating their capabilities. The S3 endpoint and the Kubernetes API are parts
  of one outside state \<open>'s\<close>; requests run in the order of the code.
\<close>

definition text_of :: "string \<Rightarrow> err \<Rightarrow> err" where
  "text_of what e = Errorf (what @ '': '' @ error_text e)"

text \<open>The storage of a new volume: a COSI bucket is only looked up, any other is made if missing.\<close>

definition prepareStorage ::
  "'s minio \<Rightarrow> s3Client \<Rightarrow> string \<Rightarrow> string \<Rightarrow> string \<Rightarrow> ('s, err option) state" where
  "prepareStorage mc client volumeID bucketName pfx =
     (let cosiBucket = CfgBucket (clConfig client)
      in if cosiBucket \<noteq> '''' then do {
           there \<leftarrow> BucketExists mc client cosiBucket;
           State_Monad.return (case there of
             Inl e \<Rightarrow> Some (text_of (''failed to check if COSI bucket '' @ cosiBucket @ '' exists'') e)
           | Inr b \<Rightarrow> if b then None else Some (Status FailedPrecondition
               (''COSI bucket '' @ cosiBucket @ '' does not exist (is the BucketClaim bound?)'')))
         }
         else do {
           there \<leftarrow> BucketExists mc client bucketName;
           case there of
             Inl e \<Rightarrow> State_Monad.return (Some (text_of (''failed to check if bucket '' @ volumeID @ '' exists'') e))
           | Inr b \<Rightarrow> do {
               made \<leftarrow> (if b then State_Monad.return None else CreateBucket mc client bucketName);
               case made of
                 Some e \<Rightarrow> State_Monad.return (Some (text_of (''failed to create bucket '' @ bucketName) e))
               | None \<Rightarrow> do {
                   put \<leftarrow> CreatePrefix mc client bucketName pfx;
                   State_Monad.return (map_option (text_of (''failed to create prefix '' @ pfx)) put)
                 }
             }
         })"

definition stampContext :: "smap \<Rightarrow> int \<Rightarrow> string \<Rightarrow> smap" where
  "stampContext params capacityBytes cosiBucket =
     (let volContext = params(''capacity'' \<mapsto> show_int capacityBytes)
      in if cosiBucket \<noteq> '''' then volContext(cosiBucketContextKey \<mapsto> cosiBucket) else volContext)"

definition CreateVolume ::
  "(string \<Rightarrow> string) \<Rightarrow> s3deps \<Rightarrow> 's minio \<Rightarrow> 's k8s option \<Rightarrow> CreateVolumeRequest \<Rightarrow> ('s, err + Volume) state" where
  "CreateVolume uni d mc k8s req =
     (let params = cvParameters req;
          capacityBytes = cvRequiredBytes req;
          (volumeID, bucketName, pfx) = volumeLocation uni (cvName req) params
      in if volumeID = '''' then State_Monad.return (Inl (Status InvalidArgument ''Name missing in request''))
      else if cvCapabilities req = None
      then State_Monad.return (Inl (Status InvalidArgument ''Volume Capabilities missing in request''))
      else do {
        handle \<leftarrow> bucketAccessHandle k8s params;
        case handle of
          Some (baName, baNS) \<Rightarrow> State_Monad.return (Inr
            \<lparr>VolumeId = volumeID, VolCapacityBytes = capacityBytes,
             VolumeContext = [''mounter'' \<mapsto> mget params ''mounter'',
               ''options'' \<mapsto> mget params ''options'',
               bucketAccessNameKey \<mapsto> baName, bucketAccessNsKey \<mapsto> baNS,
               ''capacity'' \<mapsto> show_int capacityBytes]\<rparr>)
        | None \<Rightarrow>
          (case NewClientFromSecret d (cvSecrets req) of
             Inl e \<Rightarrow> State_Monad.return (Inl (text_of ''failed to initialize S3 client'' e))
           | Inr client \<Rightarrow> do {
               failed \<leftarrow> prepareStorage mc client volumeID bucketName pfx;
               State_Monad.return (case failed of
                 Some e \<Rightarrow> Inl e
               | None \<Rightarrow> Inr \<lparr>VolumeId = volumeID, VolCapacityBytes = capacityBytes,
                   VolumeContext = stampContext params capacityBytes (CfgBucket (clConfig client))\<rparr>)
             })
      })"

definition DeleteVolume ::
  "s3deps \<Rightarrow> 's minio \<Rightarrow> DeleteVolumeRequest \<Rightarrow> ('s, err + unit) state" where
  "DeleteVolume d mc req =
     (let volumeID = dvVolumeId req; (bucketName, pfx) = volumeIDToBucketPrefix volumeID
      in if volumeID = '''' then State_Monad.return (Inl (Status InvalidArgument ''Volume ID missing in request''))
      else case NewClientFromSecret d (dvSecrets req) of
        Inl e \<Rightarrow> State_Monad.return (Inl (text_of ''failed to initialize S3 client'' e))
      | Inr client \<Rightarrow>
          if CfgBucket (clConfig client) \<noteq> '''' then State_Monad.return (Inr ())
          else if pfx = '''' then do {
            e \<leftarrow> RemoveBucket mc client bucketName;
            State_Monad.return (case e of None \<Rightarrow> Inr ()
              | Some er \<Rightarrow> if error_text er \<noteq> ''The specified bucket does not exist'' then Inl er else Inr ())
          }
          else do {
            e \<leftarrow> RemovePrefix mc client bucketName pfx;
            State_Monad.return (case e of None \<Rightarrow> Inr () | Some er \<Rightarrow> Inl (text_of ''unable to remove prefix'' er))
          })"

definition supportedAccessMode :: access_mode where
  "supportedAccessMode = MULTI_NODE_MULTI_WRITER"

definition ValidateVolumeCapabilities ::
  "s3deps \<Rightarrow> 's minio \<Rightarrow> ValidateRequest \<Rightarrow> ('s, err + ValidateResponse) state" where
  "ValidateVolumeCapabilities d mc req =
     (if vvVolumeId req = '''' then State_Monad.return (Inl (Status InvalidArgument ''Volume ID missing in request''))
      else case vvCapabilities req of
        None \<Rightarrow> State_Monad.return (Inl (Status InvalidArgument ''Volume capabilities missing in request''))
      | Some caps \<Rightarrow>
        (case NewClientFromSecret d (vvSecrets req) of
           Inl e \<Rightarrow> State_Monad.return (Inl (text_of ''failed to initialize S3 client'' e))
         | Inr client \<Rightarrow>
           (let bucketName = (if CfgBucket (clConfig client) \<noteq> '''' then CfgBucket (clConfig client)
                              else fst (volumeIDToBucketPrefix (vvVolumeId req)))
            in do {
              exists \<leftarrow> BucketExists mc client bucketName;
              State_Monad.return (case exists of
                Inl e \<Rightarrow> Inl e
              | Inr ex \<Rightarrow>
                  if \<not> ex then Inl (Status NotFound (''bucket of volume with id '' @ vvVolumeId req @ '' does not exist''))
                  else if \<exists>c \<in> set caps. getMode c \<noteq> supportedAccessMode
                  then Inr (NotConfirmed ''Only single node writer is supported'')
                  else Inr (Confirmed [\<lparr>AccessMode = Some supportedAccessMode, MountFlags = []\<rparr>]))
            })))"

section \<open>The calls that answer at once\<close>

datatype controller_rpc = ControllerExpandVolume | CreateSnapshot | DeleteSnapshot | ListSnapshots
  | ListVolumes | GetCapacity | ControllerPublishVolume | ControllerUnpublishVolume
  | ControllerGetVolume | ControllerModifyVolume

fun rpc_name :: "controller_rpc \<Rightarrow> string" where
  "rpc_name ControllerExpandVolume = ''ControllerExpandVolume''"
| "rpc_name CreateSnapshot = ''CreateSnapshot''"
| "rpc_name DeleteSnapshot = ''DeleteSnapshot''"
| "rpc_name ListSnapshots = ''ListSnapshots''"
| "rpc_name ListVolumes = ''ListVolumes''"
| "rpc_name GetCapacity = ''GetCapacity''"
| "rpc_name ControllerPublishVolume = ''ControllerPublishVolume''"
| "rpc_name ControllerUnpublishVolume = ''ControllerUnpublishVolume''"
| "rpc_name ControllerGetVolume = ''ControllerGetVolume''"
| "rpc_name ControllerModifyVolume = ''ControllerModifyVolume''"

definition unimplemented :: "controller_rpc \<Rightarrow> err + unit" where
  "unimplemented r = Inl (Status Unimplemented (rpc_name r @ '' is not implemented''))"

definition ControllerGetCapabilities :: "capability_service list" where
  "ControllerGetCapabilities = [CREATE_DELETE_VOLUME]"

section \<open>Creating\<close>

text \<open>Requests to the Kubernetes API that read do not change what the endpoint holds.\<close>

definition api_reads :: "'s k8s option \<Rightarrow> ('s \<Rightarrow> buckets) \<Rightarrow> bool" where
  "api_reads k8s view \<longleftrightarrow> (case k8s of None \<Rightarrow> True
     | Some k \<Rightarrow> \<forall>ns name s. view (exec (get_PVC k ns name) s) = view s)"

lemma handle_view: "api_reads k8s view \<Longrightarrow> view (exec (bucketAccessHandle k8s params) s) = view s"
  by (auto simp: api_reads_def bucketAccessHandle_def Let_def split: option.splits sum.splits)

text \<open>What a bucket holds, nothing when there is none; the marker object of a prefix.\<close>

definition held :: "buckets \<Rightarrow> string \<Rightarrow> string set" where
  "held m b = (case m b of None \<Rightarrow> {} | Some K \<Rightarrow> K)"

definition marker :: "string \<Rightarrow> string set" where
  "marker p = (if p = '''' then {} else {p @ ''/''})"

lemma CreatePrefix_view:
  assumes "s3_contract mc view" "val_of (CreatePrefix mc c b p) s = None" "view s b = Some K"
  shows "view (exec (CreatePrefix mc c b p) s) = (view s)(b := Some (K \<union> marker p))"
  using s3.mkprefix_view[OF assms(1) _ assms(2)] s3.mkprefix_fail[OF assms(1), of p c b s] assms(3)
  by (auto simp: marker_def fun_eq_iff)

lemma prepare_plain:
  assumes "s3_contract mc view" "CfgBucket (clConfig c) = ''''"
    and "val_of (prepareStorage mc c vid b p) s = None"
  shows "view (exec (prepareStorage mc c vid b p) s) = (view s)(b := Some (held (view s) b \<union> marker p))"
proof -
  let ?s1 = "exec (BucketExists mc c b) s"
  have v1: "view ?s1 = view s" by (rule s3.exists_view[OF assms(1)])
  obtain e where e: "val_of (BucketExists mc c b) s = Inr e"
    using assms(2,3) by (cases "val_of (BucketExists mc c b) s") (auto simp: prepareStorage_def)
  have e_iff: "e = (view s b \<noteq> None)" by (rule s3.exists_true[OF assms(1) e])
  show ?thesis
  proof (cases e)
    case True
    then obtain K where K: "view ?s1 b = Some K" using e_iff v1 by auto
    have "val_of (CreatePrefix mc c b p) ?s1 = None"
      using assms(2,3) e True by (simp add: prepareStorage_def)
    from CreatePrefix_view[OF assms(1) this K] show ?thesis
      using assms(2) e True K by (simp add: prepareStorage_def held_def v1)
  next
    case False
    then have made: "val_of (CreateBucket mc c b) ?s1 = None"
      using assms(2,3) e by (auto simp: prepareStorage_def split: option.splits)
    let ?s2 = "exec (CreateBucket mc c b) ?s1"
    have v2: "view ?s2 = (view s)(b := Some {})" using s3.create_view[OF assms(1), of c b ?s1] made v1 by simp
    have "val_of (CreatePrefix mc c b p) ?s2 = None"
      using assms(2,3) e False made by (simp add: prepareStorage_def)
    from CreatePrefix_view[OF assms(1) this, of "{}"] show ?thesis
      using assms(2) e False made e_iff by (simp add: prepareStorage_def held_def v2)
  qed
qed

lemma prepare_cosi:
  assumes "s3_contract mc view" "CfgBucket (clConfig c) \<noteq> ''''"
  shows "view (exec (prepareStorage mc c vid b p) s) = view s"
    and "val_of (prepareStorage mc c vid b p) s = None \<Longrightarrow> view s (CfgBucket (clConfig c)) \<noteq> None"
proof -
  show "view (exec (prepareStorage mc c vid b p) s) = view s"
    using assms by (simp add: prepareStorage_def Let_def s3.exists_view)
  assume "val_of (prepareStorage mc c vid b p) s = None"
  then have "val_of (BucketExists mc c (CfgBucket (clConfig c))) s = Inr True"
    using assms(2) by (auto simp: prepareStorage_def Let_def split: sum.splits if_splits)
  from s3.exists_true[OF assms(1) this] show "view s (CfgBucket (clConfig c)) \<noteq> None" by simp
qed

text \<open>The two ways CreateVolume succeeds: a handle it only records, or storage it prepares.\<close>

lemma CreateVolume_Inr:
  assumes "volumeLocation uni (cvName req) (cvParameters req) = (vid, b, p)"
    and "val_of (CreateVolume uni d mc k8s req) s = Inr v"
  obtains (handle) name ns where "val_of (bucketAccessHandle k8s (cvParameters req)) s = Some (name, ns)"
      "exec (CreateVolume uni d mc k8s req) s = exec (bucketAccessHandle k8s (cvParameters req)) s"
      "VolumeId v = vid"
      "VolumeContext v = [''mounter'' \<mapsto> mget (cvParameters req) ''mounter'',
               ''options'' \<mapsto> mget (cvParameters req) ''options'',
               bucketAccessNameKey \<mapsto> name, bucketAccessNsKey \<mapsto> ns,
               ''capacity'' \<mapsto> show_int (cvRequiredBytes req)]"
  | (storage) c where "val_of (bucketAccessHandle k8s (cvParameters req)) s = None"
      "NewClientFromSecret d (cvSecrets req) = Inr c"
      "exec (CreateVolume uni d mc k8s req) s =
         exec (prepareStorage mc c vid b p) (exec (bucketAccessHandle k8s (cvParameters req)) s)"
      "val_of (prepareStorage mc c vid b p) (exec (bucketAccessHandle k8s (cvParameters req)) s) = None"
      "VolumeId v = vid"
      "VolumeContext v = stampContext (cvParameters req) (cvRequiredBytes req) (CfgBucket (clConfig c))"
proof (cases "val_of (bucketAccessHandle k8s (cvParameters req)) s")
  case None
  with assms show thesis
    by (auto simp: CreateVolume_def Let_def intro!: storage split: if_splits sum.splits option.splits)
next
  case (Some h)
  with assms show thesis
    by (cases h) (auto simp: CreateVolume_def Let_def intro!: handle split: if_splits)
qed

section \<open>Deleting\<close>

lemma DeleteVolume_plain:
  assumes "NewClientFromSecret d (dvSecrets req) = Inr c" "CfgBucket (clConfig c) = ''''"
    and "dvVolumeId req \<noteq> ''''" "volumeIDToBucketPrefix (dvVolumeId req) = (b, p)"
  shows "exec (DeleteVolume d mc req) s =
      (if p = '''' then exec (RemoveBucket mc c b) s else exec (RemovePrefix mc c b p) s)"
    and "val_of (DeleteVolume d mc req) s = Inr () \<longleftrightarrow>
      (if p = '''' then val_of (RemoveBucket mc c b) s = None \<or>
          (\<exists>e. val_of (RemoveBucket mc c b) s = Some e \<and> error_text e = ''The specified bucket does not exist'')
       else val_of (RemovePrefix mc c b p) s = None)"
  using assms by (auto simp: DeleteVolume_def Let_def split: option.splits)

lemma DeleteVolume_prefix_exact:
  assumes "s3_contract mc view" "listings_complete mc"
    and "NewClientFromSecret d (dvSecrets req) = Inr c" "CfgBucket (clConfig c) = ''''"
    and "dvVolumeId req \<noteq> ''''" "volumeIDToBucketPrefix (dvVolumeId req) = (b, p)" "p \<noteq> ''''"
    and "val_of (DeleteVolume d mc req) s = Inr ()"
  shows "view (exec (DeleteVolume d mc req) s) = drop_keys (with_prefix p) (view s) b"
proof -
  have "val_of (RemovePrefix mc c b p) s = None"
    using assms(7,8) DeleteVolume_plain(2)[OF assms(3-6), of mc s] by simp
  from s3.rmprefix_exact[OF assms(1,2) this] show ?thesis
    using assms(7) by (simp add: DeleteVolume_plain(1)[OF assms(3-6)])
qed

lemma DeleteVolume_cosi:
  assumes "NewClientFromSecret d (dvSecrets req) = Inr c" "CfgBucket (clConfig c) \<noteq> ''''"
    and "dvVolumeId req \<noteq> ''''"
  shows "DeleteVolume d mc req = State_Monad.return (Inr ())"
  using assms by (auto simp: DeleteVolume_def Let_def split: prod.splits)

lemma DeleteVolume_refused:
  "dvVolumeId req = '''' \<Longrightarrow>
    DeleteVolume d mc req = State_Monad.return (Inl (Status InvalidArgument ''Volume ID missing in request''))"
  "dvVolumeId req \<noteq> '''' \<Longrightarrow> NewClientFromSecret d (dvSecrets req) = Inl e \<Longrightarrow>
    DeleteVolume d mc req = State_Monad.return (Inl (text_of ''failed to initialize S3 client'' e))"
  by (auto simp: DeleteVolume_def Let_def split: prod.splits)

section \<open>A sample cluster\<close>

text \<open>Whatever is answered, only keys under the volume's prefix can go.\<close>

lemma DeleteVolume_spares:
  assumes "s3_contract mc view" "volumeIDToBucketPrefix (dvVolumeId req) = (b, p)"
  shows "(\<forall>b'. b' \<noteq> b \<longrightarrow> view (exec (DeleteVolume d mc req) s) b' = view s b') \<and>
    (p \<noteq> '''' \<longrightarrow> shrinks (view s) (view (exec (DeleteVolume d mc req) s)) b (with_prefix p))"
proof (cases "dvVolumeId req = '''' \<or> (\<exists>e. NewClientFromSecret d (dvSecrets req) = Inl e)")
  case True
  then have "exec (DeleteVolume d mc req) s = s"
    by (cases "dvVolumeId req = ''''") (auto simp: DeleteVolume_refused)
  then show ?thesis by simp
next
  case False
  then obtain c where c: "NewClientFromSecret d (dvSecrets req) = Inr c" and ne: "dvVolumeId req \<noteq> ''''"
    by (cases "NewClientFromSecret d (dvSecrets req)") auto
  show ?thesis
  proof (cases "CfgBucket (clConfig c) = ''''")
    case True
    show ?thesis
      using s3.rmprefix_other[OF assms(1)] s3.rmbucket_other[OF assms(1)] s3.rmprefix_spares[OF assms(1)]
      by (simp add: DeleteVolume_plain(1)[OF c True ne assms(2)])
  qed (simp add: DeleteVolume_cosi[OF c _ ne])
qed

text \<open>Concrete requests and libraries the witnesses below are evaluated on.\<close>

definition sample_deps :: s3deps where
  "sample_deps = \<lparr>url_Parse = \<lambda>s. Inr \<lparr>Scheme = ''https'', Hostname = s, Port = ''''\<rparr>,
     AppendCertsFromPEM = \<lambda>_. True, minio_New = \<lambda>_ _. None,
     unmarshal_BucketInfo = \<lambda>s. Inr \<lparr>biBucketName = s, biSecretS3 =
       \<lparr>biEndpoint = ''s3'', biRegion = '''', biAccessKeyID = ''a'', biAccessSecretKey = ''k''\<rparr>\<rparr>\<rparr>"

definition sample_client :: "string \<Rightarrow> s3Client" where
  "sample_client bucket = \<lparr>clConfig = \<lparr>AccessKeyID = if bucket = '''' then '''' else ''a'',
     SecretAccessKey = if bucket = '''' then '''' else ''k'', Region = '''',
     Endpoint = if bucket = '''' then '''' else ''s3'', CfgMounter = '''', Insecure = False,
     CABundle = '''', CfgBucket = bucket\<rparr>,
     clHost = if bucket = '''' then '''' else ''s3'', clSecure = True, clTLS = TLSDefault\<rparr>"

lemma sample_plain: "NewClientFromSecret sample_deps Map.empty = Inr (sample_client '''')"
  by (simp add: NewClientFromSecret_def NewClient_def sample_deps_def sample_client_def parse_bool_def)

lemma sample_cosi:
  "b \<noteq> '''' \<Longrightarrow> NewClientFromSecret sample_deps [''BucketInfo'' \<mapsto> b] = Inr (sample_client b)"
  by (simp add: NewClientFromSecret_def NewClient_def sample_deps_def sample_client_def parse_bool_def)

lemma sample_client_bucket [simp]: "CfgBucket (clConfig (sample_client b)) = b"
  by (simp add: sample_client_def)

definition sample_create :: CreateVolumeRequest where
  "sample_create = \<lparr>cvName = ''PVC-1'', cvRequiredBytes = 5, cvCapabilities = Some [],
     cvParameters = [''bucket'' \<mapsto> ''data''], cvSecrets = Map.empty\<rparr>"

lemma sample_location:
  "volumeLocation id (cvName sample_create) (cvParameters sample_create) = (''data/pvc-1'', ''data'', ''pvc-1'')"
  by code_simp

lemma sample_created:
  "val_of (CreateVolume id sample_deps mem_minio None sample_create) Map.empty =
     Inr \<lparr>VolumeId = ''data/pvc-1'', VolCapacityBytes = 5, VolumeContext = [''bucket'' \<mapsto> ''data'', ''capacity'' \<mapsto> ''5'']\<rparr>"
proof -
  have show5: "show_int 5 = ''5''" by code_simp
  show ?thesis
    using sample_location
    by (simp add: CreateVolume_def Let_def sample_create_def sample_plain prepareStorage_def BucketExists_def CreateBucket_def
        CreatePrefix_def mem_minio_def bucketAccessHandle_def stampContext_def show5)
qed

section \<open>Properties\<close>

text \<open>C3. Where CreateVolume puts a volume is where its ID says it is: when it succeeds without a
  handle or a COSI bucket, the bucket its ID names exists, holds what it held before plus the
  marker of the ID's prefix, and nothing else on the endpoint changed.\<close>

theorem create_places:
  assumes "s3_contract mc view" "api_reads k8s view"
    and "val_of (CreateVolume uni d mc k8s req) s = Inr v"
    and "val_of (bucketAccessHandle k8s (cvParameters req)) s = None"
    and "NewClientFromSecret d (cvSecrets req) = Inr c" "CfgBucket (clConfig c) = ''''"
    and "plain (sanitizeVolumeID uni (cvName req))"
    and "mget (cvParameters req) ''bucket'' \<noteq> '''' \<Longrightarrow> plain (mget (cvParameters req) ''bucket'')"
  shows "case volumeIDToBucketPrefix (VolumeId v) of (b, p) \<Rightarrow>
    view (exec (CreateVolume uni d mc k8s req) s) = (view s)(b := Some (held (view s) b \<union> marker p))"
proof -
  obtain vid b p where loc: "volumeLocation uni (cvName req) (cvParameters req) = (vid, b, p)"
    by (metis prod_cases3)
  from loc assms(3) show ?thesis
  proof (cases rule: CreateVolume_Inr)
    case (storage c')
    have "c' = c" using storage(2) assms(5) by simp
    moreover have "volumeIDToBucketPrefix vid = (b, p)" by (rule location_roundtrip[OF loc assms(7,8)])
    ultimately show ?thesis
      using storage prepare_plain[OF assms(1,6) storage(4)[unfolded \<open>c' = c\<close>]]
      by (simp add: handle_view[OF assms(2)])
  qed (use assms(4) in simp)
qed

theorem create_places_witness:
  "mem_view (exec (CreateVolume id sample_deps mem_minio None sample_create) Map.empty) ''data'' = Some {''pvc-1/''}"
proof -
  have id: "volumeIDToBucketPrefix ''data/pvc-1'' = (''data'', ''pvc-1'')" by code_simp
  have plain: "plain (sanitizeVolumeID id (cvName sample_create))"
    "plain (mget (cvParameters sample_create) ''bucket'')" by code_simp+
  have "case volumeIDToBucketPrefix ''data/pvc-1'' of (b, p) \<Rightarrow>
      mem_view (exec (CreateVolume id sample_deps mem_minio None sample_create) Map.empty)
      = (mem_view Map.empty)(b := Some (held (mem_view Map.empty) b \<union> marker p))"
    using create_places[OF mem_contract _ sample_created, of "sample_client ''''"] plain
    by (simp add: api_reads_def bucketAccessHandle_def sample_create_def sample_plain)
  then show ?thesis by (simp add: id held_def mem_view_def marker_def)
qed

text \<open>C15. With credentials bound to a COSI bucket, CreateVolume never changes what the endpoint
  holds; it succeeds only if that bucket is there, and then the volume's context names the bucket
  and the nodes mount its root, whatever the volume ID says.\<close>

theorem create_cosi_safe:
  assumes "s3_contract mc view" "api_reads k8s view"
    and "NewClientFromSecret d (cvSecrets req) = Inr c" "CfgBucket (clConfig c) \<noteq> ''''"
  shows "view (exec (CreateVolume uni d mc k8s req) s) = view s \<and>
    (case val_of (CreateVolume uni d mc k8s req) s of
       Inl e \<Rightarrow> True
     | Inr v \<Rightarrow> val_of (bucketAccessHandle k8s (cvParameters req)) s = None \<longrightarrow>
         view s (CfgBucket (clConfig c)) \<noteq> None \<and>
         BucketName (getMeta b p (VolumeContext v)) = CfgBucket (clConfig c) \<and>
         Prefix (getMeta b p (VolumeContext v)) = '''')"
proof (rule conjI)
  show "view (exec (CreateVolume uni d mc k8s req) s) = view s"
    using assms
    by (auto simp: CreateVolume_def Let_def handle_view prepare_cosi(1) split: prod.splits option.splits)
  obtain vid b' p' where loc: "volumeLocation uni (cvName req) (cvParameters req) = (vid, b', p')"
    by (metis prod_cases3)
  show "case val_of (CreateVolume uni d mc k8s req) s of
       Inl e \<Rightarrow> True
     | Inr v \<Rightarrow> val_of (bucketAccessHandle k8s (cvParameters req)) s = None \<longrightarrow>
         view s (CfgBucket (clConfig c)) \<noteq> None \<and>
         BucketName (getMeta b p (VolumeContext v)) = CfgBucket (clConfig c) \<and>
         Prefix (getMeta b p (VolumeContext v)) = ''''"
  proof (cases "val_of (CreateVolume uni d mc k8s req) s")
    case (Inr v)
    from loc Inr show ?thesis
    proof (cases rule: CreateVolume_Inr)
      case (storage c')
      have "c' = c" using storage(2) assms(3) by simp
      then show ?thesis
        using prepare_cosi(2)[OF assms(1,4) storage(4)[unfolded \<open>c' = c\<close>]] storage(6) assms(4) Inr
        by (simp add: stampContext_def Let_def getMeta_def handle_view[OF assms(2)])
    qed (use Inr in simp)
  qed simp
qed

definition sample_cosi_create :: CreateVolumeRequest where
  "sample_cosi_create = sample_create\<lparr>cvSecrets := [''BucketInfo'' \<mapsto> ''media'']\<rparr>"

theorem create_cosi_safe_witness:
  "mem_view (exec (CreateVolume id sample_deps mem_minio None sample_cosi_create) Map.empty) = mem_view Map.empty"
  using create_cosi_safe[OF mem_contract, of None sample_deps sample_cosi_create "sample_client ''media''" id Map.empty]
    sample_cosi[of "''media''"]
  by (simp add: api_reads_def sample_cosi_create_def)

text \<open>A volume created through a COSI handle touches the endpoint in no way, and its context
  leads the node to that handle: whatever secrets the kubelet passes, the node resolves the
  BucketAccess the claim's annotation named, in the claim's namespace.\<close>

theorem create_handle_resolves:
  assumes "val_of (bucketAccessHandle k8s (cvParameters req)) s = Some (name, ns)"
    and "val_of (CreateVolume uni d mc k8s req) s = Inr v"
  shows "exec (CreateVolume uni d mc k8s req) s = exec (bucketAccessHandle k8s (cvParameters req)) s \<and>
    secretsForVolume k8s csiSecrets (VolumeContext v) = resolveCOSISecret k8s name ns"
proof -
  obtain vid b p where loc: "volumeLocation uni (cvName req) (cvParameters req) = (vid, b, p)"
    by (metis prod_cases3)
  have ne: "name \<noteq> ''''" "ns \<noteq> ''''"
    using assms(1) by (auto simp: bucketAccessHandle_def Let_def split: option.splits if_splits sum.splits)
  from loc assms(2) show ?thesis
  proof (cases rule: CreateVolume_Inr)
    case (handle name' ns')
    then show ?thesis
      using assms(1) ne
      by (simp add: secretsForVolume_def mget_def bucketAccessNameKey_def bucketAccessNsKey_def)
  qed (use assms(1) in simp)
qed

definition sample_k8s :: "'o k8s" where
  "sample_k8s = \<lparr>get_BucketAccess = \<lambda>_ _. State_Monad.return (Inl (Errorf ''none'')),
     get_BucketClaim = \<lambda>_ _. State_Monad.return (Inl (Errorf ''none'')),
     get_Secret = \<lambda>_ _. State_Monad.return (Inl (Errorf ''none'')),
     get_PVC = \<lambda>_ _. State_Monad.return (Inr [bucketAccessAnnotation \<mapsto> ''ba'']),
     list_PVs = State_Monad.return (Inr [])\<rparr>"

definition sample_handle_create :: CreateVolumeRequest where
  "sample_handle_create = sample_create\<lparr>cvParameters := [pvcNameParam \<mapsto> ''c'', pvcNamespaceParam \<mapsto> ''n'']\<rparr>"

theorem create_handle_resolves_witness:
  "\<exists>v. val_of (CreateVolume id sample_deps mem_minio (Some sample_k8s) sample_handle_create) Map.empty = Inr v \<and>
     secretsForVolume (Some sample_k8s :: mem k8s option) Map.empty (VolumeContext v)
       = resolveCOSISecret (Some sample_k8s) ''ba'' ''n''"
proof -
  let ?k = "Some sample_k8s :: mem k8s option"
  have h: "val_of (bucketAccessHandle ?k (cvParameters sample_handle_create)) Map.empty = Some (''ba'', ''n'')"
    by (simp add: bucketAccessHandle_def sample_handle_create_def sample_k8s_def pvcNameParam_def
        pvcNamespaceParam_def mget_def)
  have loc: "volumeLocation id (cvName sample_handle_create) (cvParameters sample_handle_create) = (''pvc-1'', ''pvc-1'', '''')"
    by code_simp
  have caps: "cvCapabilities sample_handle_create = Some []"
    by (simp add: sample_handle_create_def sample_create_def)
  obtain v where v: "val_of (CreateVolume id sample_deps mem_minio ?k sample_handle_create) Map.empty = Inr v"
    using h loc caps by (auto simp: CreateVolume_def Let_def)
  from create_handle_resolves[OF h v] v show ?thesis by blast
qed

text \<open>C1. Deleting a volume reaches only into it: whatever DeleteVolume answers and however listing
  and removing fail on the way, every other bucket is as it was, and of the volume's own bucket
  only keys under the volume's prefix can be gone (with no prefix, the bucket is the volume).\<close>

theorem delete_isolated:
  assumes "s3_contract mc view" "volumeIDToBucketPrefix (dvVolumeId req) = (b, p)"
  shows "(\<forall>b'. b' \<noteq> b \<longrightarrow> view (exec (DeleteVolume d mc req) s) b' = view s b') \<and>
    (p \<noteq> '''' \<longrightarrow> shrinks (view s) (view (exec (DeleteVolume d mc req) s)) b (with_prefix p))"
  by (rule DeleteVolume_spares[OF assms])

definition sample_delete :: DeleteVolumeRequest where
  "sample_delete = \<lparr>dvVolumeId = ''data/pvc-1'', dvSecrets = Map.empty\<rparr>"

definition sample_store :: mem where
  "sample_store = [''data'' \<mapsto> [''pvc-1/'', ''pvc-1/a'', ''other'', ''pvc-10/b''], ''keep'' \<mapsto> [''x'']]"

lemma sample_delete_id: "volumeIDToBucketPrefix (dvVolumeId sample_delete) = (''data'', ''pvc-1'')"
  by code_simp

lemma sample_plain_delete: "NewClientFromSecret sample_deps (dvSecrets sample_delete) = Inr (sample_client '''')"
  by (simp add: sample_delete_def sample_plain)

theorem delete_isolated_witness:
  "mem_view (exec (DeleteVolume sample_deps mem_minio sample_delete) sample_store) ''keep'' = Some {''x''}"
  using delete_isolated[OF mem_contract sample_delete_id, of sample_deps sample_store]
  by (simp add: mem_view_def sample_store_def)


lemma sample_delete_run: "val_of (DeleteVolume sample_deps mem_minio sample_delete) sample_store = Inr ()"
  using sample_delete_id
  by (simp add: DeleteVolume_def sample_delete_def sample_plain RemovePrefix_def removeObjects_def mem_minio_def
      sample_store_def)

lemma sample_delete_ne: "dvVolumeId sample_delete \<noteq> ''''"
  by (simp add: sample_delete_def)

lemma sample_delete_view:
  "mem_view (exec (DeleteVolume sample_deps mem_minio sample_delete) sample_store)
     = drop_keys (with_prefix ''pvc-1'') (mem_view sample_store) ''data''"
  by (rule DeleteVolume_prefix_exact[OF mem_contract mem_listings sample_plain_delete _ sample_delete_ne
        sample_delete_id _ sample_delete_run]) simp_all


text \<open>C39. Volumes of one bucket are not told apart by their prefixes: when the prefix of one volume
  begins another's, a successful deletion of the first leaves nothing of the second.\<close>

theorem delete_takes_siblings:
  assumes "s3_contract mc view" "listings_complete mc"
    and "NewClientFromSecret d (dvSecrets req) = Inr c" "CfgBucket (clConfig c) = ''''"
    and "dvVolumeId req \<noteq> ''''" "volumeIDToBucketPrefix (dvVolumeId req) = (b, p)" "p \<noteq> ''''"
    and "val_of (DeleteVolume d mc req) s = Inr ()"
    and "prefix p q" "view (exec (DeleteVolume d mc req) s) b = Some K" "k \<in> K"
  shows "\<not> prefix (q @ ''/'') k"
proof
  assume "prefix (q @ ''/'') k"
  then have "prefix p k" using assms(9) by (meson prefix_order.trans prefixI)
  moreover have "view (exec (DeleteVolume d mc req) s) = drop_keys (with_prefix p) (view s) b"
    by (rule DeleteVolume_prefix_exact[OF assms(1-8)])
  ultimately show False using assms(10,11) by (auto simp: drop_keys_def)
qed

theorem delete_takes_siblings_witness:
  "\<exists>K. mem_view (exec (DeleteVolume sample_deps mem_minio sample_delete) sample_store) ''data'' = Some K \<and>
     ''pvc-10/b'' \<in> held (mem_view sample_store) ''data'' \<and> ''pvc-10/b'' \<notin> K"
proof -
  obtain K where K: "mem_view (exec (DeleteVolume sample_deps mem_minio sample_delete) sample_store) ''data'' = Some K"
    unfolding sample_delete_view by (simp add: drop_keys_def mem_view_def sample_store_def)
  have "''pvc-10/b'' \<notin> K"
  proof
    assume "''pvc-10/b'' \<in> K"
    from delete_takes_siblings[where view = mem_view, OF mem_contract mem_listings sample_plain_delete _
        sample_delete_ne sample_delete_id _ sample_delete_run _ K this, of "''pvc-10''"]
    show False by simp
  qed
  moreover have "''pvc-10/b'' \<in> held (mem_view sample_store) ''data''"
    by (simp add: held_def mem_view_def sample_store_def)
  ultimately show ?thesis using K by blast
qed

text \<open>C14. The credentials of a COSI BucketAccess never delete data: with a \<open>BucketInfo\<close> in the
  secret, DeleteVolume sends the endpoint nothing, and it succeeds whenever the ID is given and
  the secret is well formed.\<close>

theorem delete_cosi_keeps:
  assumes "mget (dvSecrets req) ''BucketInfo'' \<noteq> ''''"
  shows "exec (DeleteVolume d mc req) s = s \<and>
    (val_of (DeleteVolume d mc req) s = Inr () \<longleftrightarrow>
       dvVolumeId req \<noteq> '''' \<and> (\<exists>c. NewClientFromSecret d (dvSecrets req) = Inr c))"
proof (cases "NewClientFromSecret d (dvSecrets req)")
  case (Inl e)
  then show ?thesis by (cases "dvVolumeId req = ''''") (simp_all add: DeleteVolume_refused)
next
  case (Inr c)
  with assms have "CfgBucket (clConfig c) \<noteq> ''''" using client_bucket_iff by blast
  from DeleteVolume_cosi[OF Inr this, of mc] show ?thesis
    by (cases "dvVolumeId req = ''''") (auto simp: DeleteVolume_refused Inr)
qed

theorem delete_cosi_keeps_witness:
  "exec (DeleteVolume sample_deps mem_minio \<lparr>dvVolumeId = ''v'', dvSecrets = [''BucketInfo'' \<mapsto> ''media'']\<rparr>)
     sample_store = sample_store"
  using delete_cosi_keeps[of "\<lparr>dvVolumeId = ''v'', dvSecrets = [''BucketInfo'' \<mapsto> ''media'']\<rparr>"
      sample_deps mem_minio sample_store] by simp

text \<open>A volume that is a bucket of its own leaves no trace: created where there was no such
  bucket, and deleted with the ID CreateVolume answered, the endpoint holds what it held before
  as soon as it accepts the removal of the bucket.\<close>

theorem create_delete_bucket:
  assumes "s3_contract mc view" "api_reads k8s view"
    and "NewClientFromSecret d (cvSecrets req) = Inr c" "CfgBucket (clConfig c) = ''''"
    and "val_of (bucketAccessHandle k8s (cvParameters req)) s = None"
    and "val_of (CreateVolume uni d mc k8s req) s = Inr v"
    and "plain (sanitizeVolumeID uni (cvName req))" "mget (cvParameters req) ''bucket'' = ''''"
    and "view s (VolumeId v) = None"
    and "val_of (RemoveBucket mc c (VolumeId v)) (exec (CreateVolume uni d mc k8s req) s) = None"
  shows "view (exec (DeleteVolume d mc \<lparr>dvVolumeId = VolumeId v, dvSecrets = cvSecrets req\<rparr>)
      (exec (CreateVolume uni d mc k8s req) s)) = view s"
proof -
  let ?id = "sanitizeVolumeID uni (cvName req)" and ?s = "exec (CreateVolume uni d mc k8s req) s"
  have loc: "volumeLocation uni (cvName req) (cvParameters req) = (?id, ?id, '''')"
    by (simp add: volumeLocation_def Let_def assms(8))
  have ne: "?id \<noteq> ''''" using plain_simps(1)[OF assms(7)] by simp
  have id: "VolumeId v = ?id" using loc assms(6) by (cases rule: CreateVolume_Inr) simp_all
  have bp: "volumeIDToBucketPrefix ?id = (?id, '''')"
    using location_roundtrip[OF loc assms(7)] by (simp add: assms(8))
  have made: "view ?s = (view s)(?id := Some {})"
    using loc assms(6)
  proof (cases rule: CreateVolume_Inr)
    case (storage c')
    have "c' = c" using storage(2) assms(3) by simp
    from prepare_plain[OF assms(1,4) storage(4)[unfolded this]] show ?thesis
      using storage(3) assms(9) \<open>c' = c\<close> id by (simp add: handle_view[OF assms(2)] held_def marker_def)
  qed (use assms(5) in simp)
  have "exec (DeleteVolume d mc \<lparr>dvVolumeId = VolumeId v, dvSecrets = cvSecrets req\<rparr>) ?s
      = exec (RemoveBucket mc c ?id) ?s"
    using assms(3,4) ne bp id by (subst DeleteVolume_plain(1)) auto
  with s3.rmbucket_gone[OF assms(1) assms(10)] show ?thesis
    using assms(9) id by (simp add: made fun_upd_idem)
qed

definition sample_own :: CreateVolumeRequest where
  "sample_own = sample_create\<lparr>cvParameters := Map.empty\<rparr>"

lemma sample_own_location:
  "volumeLocation id (cvName sample_own) (cvParameters sample_own) = (''pvc-1'', ''pvc-1'', '''')"
  by code_simp

theorem create_delete_bucket_witness:
  "mem_view (exec (DeleteVolume sample_deps mem_minio \<lparr>dvVolumeId = ''pvc-1'', dvSecrets = Map.empty\<rparr>)
      (exec (CreateVolume id sample_deps mem_minio None sample_own) sample_store)) = mem_view sample_store"
proof -
  have none: "val_of (bucketAccessHandle None (cvParameters sample_own)) sample_store = None"
    by (simp add: bucketAccessHandle_def)
  have sec: "NewClientFromSecret sample_deps (cvSecrets sample_own) = Inr (sample_client '''')"
    and caps: "cvCapabilities sample_own = Some []"
    by (simp_all add: sample_own_def sample_create_def sample_plain)
  have run: "\<exists>v. val_of (CreateVolume id sample_deps mem_minio None sample_own) sample_store = Inr v \<and> VolumeId v = ''pvc-1''"
    and mem: "exec (CreateVolume id sample_deps mem_minio None sample_own) sample_store = sample_store(''pvc-1'' \<mapsto> [])"
    using sample_own_location none sec caps
    by (simp_all add: CreateVolume_def Let_def prepareStorage_def BucketExists_def CreateBucket_def
        CreatePrefix_def mem_minio_def bucketAccessHandle_def sample_store_def)
  obtain v where v: "val_of (CreateVolume id sample_deps mem_minio None sample_own) sample_store = Inr v"
    "VolumeId v = ''pvc-1''" using run by blast
  have plain: "plain (sanitizeVolumeID id (cvName sample_own))" by code_simp
  have gone: "val_of (RemoveBucket mem_minio (sample_client '''') (VolumeId v))
      (exec (CreateVolume id sample_deps mem_minio None sample_own) sample_store) = None"
    by (simp add: mem v(2) RemoveBucket_def removeObjects_def mem_ops)
  have nobucket: "mget (cvParameters sample_own) ''bucket'' = ''''" and empty: "cvSecrets sample_own = Map.empty"
    by (simp_all add: sample_own_def sample_create_def)
  have novol: "mem_view sample_store (VolumeId v) = None" by (simp add: v(2) mem_view_def sample_store_def)
  have reads: "api_reads None mem_view" by (simp add: api_reads_def)
  show ?thesis
    using create_delete_bucket[OF mem_contract reads sec _ none v(1) plain nobucket novol gone]
    by (simp add: v(2) empty)
qed

text \<open>ValidateVolumeCapabilities confirms exactly the volumes whose bucket is there and whose
  every requested mode is MULTI_NODE_MULTI_WRITER; a missing bucket is NotFound, another mode is
  declined with a message, and the endpoint is only asked.\<close>

theorem validate_answers:
  assumes "s3_contract mc view" "NewClientFromSecret d (vvSecrets req) = Inr c"
    and "vvVolumeId req \<noteq> ''''" "vvCapabilities req = Some caps"
    and "b = (if CfgBucket (clConfig c) \<noteq> '''' then CfgBucket (clConfig c)
              else fst (volumeIDToBucketPrefix (vvVolumeId req)))"
    and "val_of (mc_BucketExists mc c b) s = Inr e"
  shows "view (exec (ValidateVolumeCapabilities d mc req) s) = view s \<and>
    val_of (ValidateVolumeCapabilities d mc req) s =
      (if view s b = None
       then Inl (Status NotFound (''bucket of volume with id '' @ vvVolumeId req @ '' does not exist''))
       else if \<forall>x \<in> set caps. getMode x = MULTI_NODE_MULTI_WRITER
       then Inr (Confirmed [\<lparr>AccessMode = Some MULTI_NODE_MULTI_WRITER, MountFlags = []\<rparr>])
       else Inr (NotConfirmed ''Only single node writer is supported''))"
  using assms s3.exists_true[OF assms(1), of c b s e] s3.exists_view[OF assms(1), of c b s]
  by (simp add: ValidateVolumeCapabilities_def Let_def BucketExists_def supportedAccessMode_def)

theorem validate_answers_witness:
  "val_of (ValidateVolumeCapabilities sample_deps mem_minio
     \<lparr>vvVolumeId = ''data/v'', vvCapabilities = Some [Some \<lparr>AccessMode = Some SINGLE_NODE_WRITER, MountFlags = []\<rparr>],
      vvSecrets = Map.empty\<rparr>) sample_store = Inr (NotConfirmed ''Only single node writer is supported'')"
proof -
  have id: "volumeIDToBucketPrefix ''data/v'' = (''data'', ''v'')" by code_simp
  show ?thesis
    using validate_answers[OF mem_contract, of sample_deps
        "\<lparr>vvVolumeId = ''data/v'', vvCapabilities = Some [Some \<lparr>AccessMode = Some SINGLE_NODE_WRITER, MountFlags = []\<rparr>],
      vvSecrets = Map.empty\<rparr>" "sample_client ''''" _ "''data''" sample_store True]
    by (simp add: sample_plain id mem_minio_def mem_view_def sample_store_def getMode_def)
qed

end
