(* ===== verification/Spec2Isabelle.thy ===== *)
theory Spec2Isabelle
  imports Restart WatchRun Driver Controller
begin

text \<open>
  The k8s-csi-s3 driver: Kubernetes volumes that are buckets, or prefixes of buckets, of an S3
  endpoint, mounted on the nodes by a FUSE program (GeeseFS, s3fs or rclone).

  \<^bold>\<open>The program.\<close> The driver is one binary with three gRPC services. The controller
  (pkg/driver/controllerserver.go) turns a request for a volume into a bucket or a prefix with its
  marker object, through the client of pkg/s3/client.go, and removes it again. The node service
  (nodeserver.go) mounts a volume at a staging path with a mounter of pkg/mounter, and binds it to
  the paths of pods. On the node a supervisor (supervisor.go) keeps a registry of the staged volumes
  in memory and in a state file, looks for mounts whose FUSE process died, mounts them again, and
  grafts the new mount over the dead one inside running containers (graft.go, with the helper
  cmd/nsmount-heal). A watch per volume (watch.go) follows the changes of the bucket through
  pkg/s3/listen.go and drops the cache of the directories that changed (cache.go), walking them
  again for read-only volumes. Credentials may come from a COSI BucketAccess (cosi.go).

  \<^bold>\<open>Reading the model.\<close> A Go string is a \<open>string\<close> of bytes, a map a partial function read with
  \<open>mget\<close>, an error a value of \<open>err\<close>; a function that fails returns \<open>err + 'a\<close>, or \<open>err option\<close> when it
  has no result. Code that calls the outside is a program of the state monad. What is outside (the
  kernel and its mounts, mount helpers, systemd, processes, the clock, the order of ranging over a
  map) is the record \<open>os\<close> of theory World, the endpoint the record \<open>minio\<close> of S3Client, the cluster
  the record \<open>k8s\<close> of Cosi, JSON, url parsing and the systemd library fields of \<open>plugin\<close> and \<open>s3deps\<close>:
  parameters, transformers of a state \<open>'o\<close> that is never defined. What is used of them is a hypothesis
  with a name that ends in \<open>_doc\<close>, or \<open>s3_contract\<close>, and each is shown to hold of some instance
  (\<open>mem_minio\<close>, \<open>idle_os\<close>, \<open>dying_os\<close>, \<open>disk_os\<close>, \<open>clocked_os\<close>).

  \<^bold>\<open>Theories.\<close>
  \<^item> GoPrelude, GoStrings, GoPaths, Sha1, Sha256: the monad with \<open>val_of\<close> and \<open>exec\<close>, invariants of
    programs (\<open>keeps\<close>), and the routines of Go's standard library the code calls (strings, strconv,
    path, the two digests), defined in full.
  \<^item> Csi: the messages of the CSI requests.
  \<^item> VolumeId: the ID of a volume and the bucket and prefix read back from it (controllerserver.go);
    \<open>location_roundtrip\<close> is why creating, deleting and mounting agree on the place.
  \<^item> S3Client, S3Store: the client (pkg/s3/client.go), and what its operations do to the keys of an
    endpoint; the locale \<open>bucket_service\<close> states the S3 API as laws over a view of the endpoint, interpreted as
    \<open>s3\<close>, and the lemmas on removing are derived in it.
  \<^item> Controller: every controller RPC, composed of the two before. Its properties say where a volume
    is put, that nothing else changes, and what deleting removes.
  \<^item> MountOptions, Cosi: \<open>getMeta\<close> with its option parser, and the resolution of COSI handles.
  \<^item> World, StateFile, SupState: the supervisor's memory, the state file and its JSON, and every
    operation on the registry as one critical section. \<open>sup_step\<close> is the relation of all sections, in
    any order and with any outside between them; \<open>sup_inv\<close> its invariant, proved by rule induction. The
    locales \<open>set_list\<close> and \<open>ctx_table\<close> hold the laws its lists of targets and devices, and its tables of
    watches and walks, share.
  \<^item> Mounter, Geesefs: the helpers of pkg/mounter and the three mounters. The locale \<open>mounter_iface\<close> is the
    interface of Mount (success means a mount), interpreted on all of them.
  \<^item> Mountinfo, Graft: the kernel's mount table, the holders of a dead device in other mount
    namespaces, and the grafts over them.
  \<^item> NodeServer, Supervisor: every node RPC, healing, discovery, the loop and its start. \<open>follows\<close>
    says that a program only takes critical sections, with one rule per construct, and holds of all.
  \<^item> Restart: what persist leaves in the state file at any failure, and the registry read back.
  \<^item> Cache, Watch, Listen, WatchRun: dropping a cache and the parallel walk (\<open>walk_step\<close>, a step
    relation); from a changed key to the directories dropped; the coalescing of drops (\<open>watch_step\<close>, a
    step relation over the fields under the watch's lock); the HTTP exchange and its watchdog; and the
    goroutine of a watch over all its connections. The locale \<open>listener_iface\<close> is the Go interface
    \<open>listener\<close>, interpreted on Listen.
  \<^item> Driver: the Identity service, New, Run up to the gRPC server, and main.

  \<^bold>\<open>What is shown.\<close> Safety of data: no request touches another bucket or a key outside its prefix,
  credentials of a COSI bucket delete nothing; creating, deleting and staging agree on the place, and
  volumes made by the provisioner do not touch each other (the properties of this theory). Mounting: success of staging, publishing and
  healing means a mount that is recorded and watched; failures leave the registry alone. The
  registry: its invariant in every interleaving, that all services and loops follow its sections,
  that it survives a restart. Caches: no change and no drop is lost, a walk lists the whole tree, a
  mount whose bucket is not heard is never older than a bound. Parsers and writers are inverse to
  one another (mount options, mountinfo, JSON, escaped keys).
  Some theorems state what the code does where that is not what it means to do:
  \<open>delete_takes_siblings\<close>, \<open>failed_heal_not_retried\<close>, \<open>unstage_race_leaks\<close>, \<open>late_mark_lost\<close>,
  \<open>unstage_forgets_anyway\<close>, \<open>inline_value_swallows_next\<close>, \<open>s3fs_password_tail\<close>.

  \<^bold>\<open>Bounds and fuel.\<close> \<open>invalidateNearest\<close> takes the length of the directory and two as fuel, which is
  enough (\<open>nearest_terminates\<close>); \<open>wait_until\<close> the rounds of \<open>wait_dropping_returns\<close>, eight for the longest
  wait; \<open>waitForMount\<close> and \<open>waitForProcess\<close> count the asks the code counts. \<open>resolve_target\<close> and
  \<open>listen_loop\<close> are as long as their environment plays, since the code's loops end with the watch only.
  The supervisor's loop takes the number of its ticks. Durations are natural numbers of
  milliseconds, the interval from the environment a 64-bit count of nanoseconds that wraps.

  \<^bold>\<open>Not modelled.\<close> Logging, and what is only logged; the construction of the in-cluster clients and of
  the HTTP transport; flag parsing, gRPC itself and its logging interceptor; the text of JSON
  (encoding/json is a parameter with its round trip as its law; keys are matched exactly, and a null
  entry is not told apart from a missing one) and of a signed request; the C helper nsmount-heal
  beyond its reading of the flags. Cancellation inside library calls is their error. Goroutines are
  modelled where they share state: as steps between which any others may come.
\<close>

section \<open>Properties of the whole driver\<close>

lemma stamp_context:
  "mget (stampContext params n b) k = (if k = cosiBucketContextKey \<and> b \<noteq> '''' then b
     else if k = ''capacity'' then show_int n else mget params k)"
  by (auto simp: stampContext_def mget_def cosiBucketContextKey_def Let_def)

text \<open>C4. The controller and the nodes agree. A node that stages a volume CreateVolume made, with
  credentials of the same kind, mounts a bucket that exists, at a prefix whose marker CreateVolume
  put there (the root for a COSI bucket), with the mounter the storage class asked for.\<close>

theorem node_mounts_created:
  assumes "s3_contract mc view" "api_reads k8s view"
    and "val_of (CreateVolume uni d mc k8s req) s = Inr v"
    and "val_of (bucketAccessHandle k8s (cvParameters req)) s = None"
    and "NewClientFromSecret d (cvSecrets req) = Inr c" "mget (cvParameters req) cosiBucketContextKey = ''''"
    and "plain (sanitizeVolumeID uni (cvName req))"
    and "mget (cvParameters req) ''bucket'' \<noteq> '''' \<Longrightarrow> plain (mget (cvParameters req) ''bucket'')"
    and "val_of (volumeTarget p (VolumeId v) (VolumeContext v) secrets) t = Inr (cfg, c', m)"
    and "CfgBucket cfg = CfgBucket (clConfig c)"
  shows "(\<exists>K. view (exec (CreateVolume uni d mc k8s req) s) (BucketName m) = Some K \<and> marker (Prefix m) \<subseteq> K) \<and>
    MetaMounter m = mget (cvParameters req) ''mounter''"
proof -
  obtain vid b pfx where loc: "volumeLocation uni (cvName req) (cvParameters req) = (vid, b, pfx)"
    by (metis prod_cases3)
  from loc assms(3) show ?thesis
  proof (cases rule: CreateVolume_Inr)
    case (storage c1)
    have c1: "c1 = c" using storage(2) assms(5) by simp
    have again: "volumeIDToBucketPrefix (VolumeId v) = (b, pfx)"
      using location_roundtrip[OF loc assms(7,8)] storage(5) by simp
    have ctx: "mget (VolumeContext v) cosiBucketContextKey = CfgBucket (clConfig c)"
      using assms(6) c1 by (simp add: storage(6) stamp_context cosiBucketContextKey_def)
    have mounter: "MetaMounter m = mget (VolumeContext v) ''mounter''"
      using assms(9) by (auto simp: volumeTarget_def Let_def getMeta_def split: sum.splits prod.splits if_splits)
    have place: "(BucketName m, Prefix m) = (if CfgBucket (clConfig c) \<noteq> '''' then (CfgBucket (clConfig c), '''') else (b, pfx))"
      using volumeTarget_place[OF assms(9)] assms(10) ctx again by auto
    have "\<exists>K. view (exec (CreateVolume uni d mc k8s req) s) (BucketName m) = Some K \<and> marker (Prefix m) \<subseteq> K"
    proof (cases "CfgBucket (clConfig c) = ''''")
      case True
      with place show ?thesis
        using prepare_plain[OF assms(1) True storage(4)[unfolded c1]] by (simp add: storage(3) c1)
    next
      case False
      with place prepare_cosi[OF assms(1) False] storage(4) show ?thesis
        by (auto simp: storage(3) c1 marker_def)
    qed
    with mounter show ?thesis by (simp add: storage(6) stamp_context cosiBucketContextKey_def)
  qed (use assms(4) in simp)
qed

theorem node_mounts_created_witness:
  "\<exists>c m. val_of (volumeTarget (idle_plugin :: unit plugin) ''data/pvc-1'' [''bucket'' \<mapsto> ''data'', ''capacity'' \<mapsto> ''5''] Map.empty) () =
       Inr (clConfig c, c, m) \<and>
     mem_view (exec (CreateVolume id sample_deps mem_minio None sample_create) Map.empty) (BucketName m) \<noteq> None"
proof -
  have id: "volumeIDToBucketPrefix ''data/pvc-1'' = (''data'', ''pvc-1'')" by code_simp
  have plain: "plain (sanitizeVolumeID id (cvName sample_create))" "plain (mget (cvParameters sample_create) ''bucket'')"
    by code_simp+
  let ?v = "\<lparr>VolumeId = ''data/pvc-1'', VolCapacityBytes = 5, VolumeContext = [''bucket'' \<mapsto> ''data'', ''capacity'' \<mapsto> ''5'']\<rparr>"
  obtain c where c: "NewClientFromSecret (pDeps (idle_plugin :: unit plugin)) Map.empty = Inr c" "CfgBucket (clConfig c) = ''''"
    using idle_client by blast
  let ?m = "getMeta ''data'' ''pvc-1'' [''bucket'' \<mapsto> ''data'', ''capacity'' \<mapsto> ''5'']"
  have t: "val_of (volumeTarget (idle_plugin :: unit plugin) (VolumeId ?v) (VolumeContext ?v) Map.empty) () = Inr (clConfig c, c, ?m)"
    using c id by (simp add: volumeTarget_def Let_def secretsForVolume_def bucketAccessNameKey_def mget_def)
  have "\<exists>K. mem_view (exec (CreateVolume id sample_deps mem_minio None sample_create) Map.empty) (BucketName ?m) = Some K \<and>
      marker (Prefix ?m) \<subseteq> K"
    using node_mounts_created[OF mem_contract _ sample_created _ _ _ plain t, of "sample_client ''''"] c(2)
    by (simp add: api_reads_def bucketAccessHandle_def sample_create_def sample_plain mget_def cosiBucketContextKey_def)
  with t show ?thesis by auto
qed

text \<open>C2. Volumes of one StorageClass do not touch each other. Of two volumes with a prefix whose
  sanitized names differ and have the same length, as the names the provisioner makes up do,
  deleting one takes no key of the other, whatever it answers and whichever buckets they share.\<close>

theorem volumes_apart:
  assumes "s3_contract mc view" "volumeLocation uni n params = (i, b, p)" "volumeLocation uni n' params' = (i', b', p')"
    and "plain (sanitizeVolumeID uni n)" "plain (mget params ''bucket'')" "mget params' ''bucket'' \<noteq> ''''"
    and "length (sanitizeVolumeID uni n) = length (sanitizeVolumeID uni n')" "sanitizeVolumeID uni n \<noteq> sanitizeVolumeID uni n'"
    and "dvVolumeId req = i" "view s b' = Some K" "k \<in> K" "prefix (p' @ ''/'') k"
  shows "\<exists>K'. view (exec (DeleteVolume d mc req) s) b' = Some K' \<and> k \<in> K'"
proof -
  have ne: "mget params ''bucket'' \<noteq> ''''" using assms(5) by (auto simp: plain_def)
  have names: "p = sanitizeVolumeID uni n" "p' = sanitizeVolumeID uni n'"
    using assms(2,3,6) ne by (auto simp: volumeLocation_def Let_def)
  have id: "volumeIDToBucketPrefix (dvVolumeId req) = (b, p)"
    using location_roundtrip[OF assms(2,4)] assms(5,9) by simp
  have "p \<noteq> ''''" using assms(4) names(1) by (simp add: plain_def)
  with DeleteVolume_spares[OF assms(1) id, of d s]
  have spares: "b' \<noteq> b \<Longrightarrow> view (exec (DeleteVolume d mc req) s) b' = view s b'"
    "shrinks (view s) (view (exec (DeleteVolume d mc req) s)) b (with_prefix p)" by auto
  have "\<not> prefix p k"
  proof
    assume "prefix p k"
    moreover have "prefix p' k" using assms(12) by (rule append_prefixD)
    ultimately have "prefix p p' \<or> prefix p' p" using prefix_same_cases by blast
    with assms(7) names have "p = p'" by (auto simp: prefix_def)
    with assms(8) names show False by simp
  qed
  then have "k \<notin> with_prefix p" by (simp add: with_prefix_iff)
  with spares assms(10,11) show ?thesis by (cases "b' = b") (auto simp: shrinks_def)
qed

theorem volumes_apart_witness:
  "\<exists>K'. mem_view (exec (DeleteVolume sample_deps mem_minio sample_delete) [''data'' \<mapsto> [''pvc-1/a'', ''pvc-2/a'']]) ''data'' = Some K' \<and>
    ''pvc-2/a'' \<in> K'"
proof -
  have loc: "volumeLocation id ''PVC-1'' [''bucket'' \<mapsto> ''data''] = (''data/pvc-1'', ''data'', ''pvc-1'')"
    "volumeLocation id ''pvc-2'' [''bucket'' \<mapsto> ''data''] = (''data/pvc-2'', ''data'', ''pvc-2'')" by code_simp+
  have names: "plain (sanitizeVolumeID id ''PVC-1'')" "plain (mget [''bucket'' \<mapsto> ''data''] ''bucket'')"
    "length (sanitizeVolumeID id ''PVC-1'') = length (sanitizeVolumeID id ''pvc-2'')"
    "sanitizeVolumeID id ''PVC-1'' \<noteq> sanitizeVolumeID id ''pvc-2''" by code_simp+
  show ?thesis
    using volumes_apart[OF mem_contract loc names(1,2) _ names(3,4), where req = sample_delete and k = "''pvc-2/a''"
        and s = "[''data'' \<mapsto> [''pvc-1/a'', ''pvc-2/a'']]" and d = sample_deps]
    by (simp add: sample_delete_def mem_view_def)
qed

end
